theory Spec2Isabelle
  imports
    Main
    "HOL-Library.Word"
    "HOL-Library.Char_ord"
    "HOL-Library.List_Lexorder"
    "HOL-Library.AList"
begin

unbundle bit_operations_syntax

section \<open>Strings, streams and containers of the C++ sources\<close>

text \<open>
  A \<open>std::string\<close> is a \<open>string\<close> (a list of bytes). \<open>nl\<close> is the line feed.
  \<open>s.rfind(p, 0) == 0\<close> tests whether \<open>p\<close> is a prefix of \<open>s\<close>; \<open>s.substr(n)\<close> is only
  called after such a test, with \<open>n\<close> the length of the prefix, so it is \<open>drop n s\<close>.
\<close>

abbreviation nl :: char where
  "nl \<equiv> CHR 0x0A"

definition starts_with :: "string \<Rightarrow> string \<Rightarrow> bool" where
  "starts_with p s = (take (length p) s = p)"

text \<open>
  \<open>std::getline(in, line, d)\<close> on the remaining input \<open>s\<close>: the characters before the first
  delimiter (or all of them when there is none). The first call on a freshly opened file
  gives \<open>getline_first\<close>; on an empty file it leaves the empty string.
\<close>

definition getline_first :: "string \<Rightarrow> string" where
  "getline_first s = takeWhile (\<lambda>c. c \<noteq> nl) s"

text \<open>
  \<open>while (std::getline(in, line, d))\<close>: the lines the loop body sees. A call that reaches
  the end of input without having read a character fails and ends the loop, so a final
  delimiter does not produce an empty last line. \<open>cur\<close> holds the characters of the
  line being read.
\<close>

fun getlines_from :: "char \<Rightarrow> string \<Rightarrow> string \<Rightarrow> string list" where
  "getlines_from d cur [] = (if cur = [] then [] else [cur])"
| "getlines_from d cur (c # cs) =
     (if c = d then cur # getlines_from d [] cs else getlines_from d (cur @ [c]) cs)"

definition getlines :: "string \<Rightarrow> string list" where
  "getlines s = getlines_from nl [] s"

text \<open>
  A \<open>std::map<std::string, std::string>\<close> is an association list kept in strictly
  increasing key order (the order its iterators visit); \<open>std::string\<close> compares
  bytewise, as the lexicographic order on \<open>char list\<close> does.
  \<open>map_set\<close> is \<open>m[k] = v\<close>, \<open>map_at\<close> is \<open>m.count(k) ? m.at(k) : ""\<close>,
  \<open>map_erase\<close> is \<open>m.erase(k)\<close> and \<open>map_count\<close> is \<open>m.count(k)\<close>.
\<close>

type_synonym smap = "(string \<times> string) list"

fun map_set :: "string \<Rightarrow> string \<Rightarrow> smap \<Rightarrow> smap" where
  "map_set k v [] = [(k, v)]"
| "map_set k v ((k', v') # m) =
     (if k < k' then (k, v) # (k', v') # m
      else if k = k' then (k, v) # m
      else (k', v') # map_set k v m)"

definition map_at :: "smap \<Rightarrow> string \<Rightarrow> string" where
  "map_at m k = (case map_of m k of None \<Rightarrow> [] | Some v \<Rightarrow> v)"

definition map_count :: "smap \<Rightarrow> string \<Rightarrow> bool" where
  "map_count m k = (map_of m k \<noteq> None)"

definition map_erase :: "string \<Rightarrow> smap \<Rightarrow> smap" where
  "map_erase k m = filter (\<lambda>kv. fst kv \<noteq> k) m"

section \<open>The world outside the program\<close>

text \<open>
  What the sources take from libraries and from the operating system is a parameter of
  the model:
  \<^item> \<open>SHA1\<close>: OpenSSL's digest, the 20 bytes it writes into \<open>unsigned char hash[20]\<close>,
    read by index;
  \<^item> \<open>hasher\<close>: \<open>std::hash<std::string>\<close>, a \<open>size_t\<close> (64 bits);
  \<^item> \<open>clock\<close>: the wall clock, in seconds since the epoch (\<open>std::time\<close>,
    \<open>system_clock::now\<close>);
  \<^item> \<open>put_time\<close>: \<open>std::localtime\<close> followed by
    \<open>std::put_time(..., "%Y-%m-%d %H:%M:%S")\<close>;
  \<^item> \<open>uset_order\<close>: the order in which a \<open>std::unordered_set\<close> is iterated, given its
    elements in insertion order.
\<close>

record env =
  SHA1 :: "string \<Rightarrow> nat \<Rightarrow> 8 word"
  hasher :: "string \<Rightarrow> 64 word"
  clock :: int
  put_time :: "int \<Rightarrow> string"
  uset_order :: "string list \<Rightarrow> string list"

text \<open>
  The files on disk. \<open>minigit\<close> holds the regular files below the repository directory
  \<open>.minigit\<close>, keyed by their path relative to it; \<open>workdir\<close> holds the other files of
  the current directory, keyed by name. Opening an \<open>std::ofstream\<close> creates or truncates
  the file (\<open>AList.update\<close>); the directories the sources write into are taken to exist,
  and names are taken to denote regular files. \<open>staging_area\<close> is the member \<open>staging_area_\<close> of the
  \<open>MiniGit\<close> object.
\<close>

record repo =
  minigit :: "(string \<times> string) list"
  workdir :: "(string \<times> string) list"
  staging_area :: smap

definition read_path :: "repo \<Rightarrow> string \<Rightarrow> string option" where
  "read_path st p = map_of (minigit st) p"

definition write_path :: "string \<Rightarrow> string \<Rightarrow> repo \<Rightarrow> repo" where
  "write_path p content st = st\<lparr>minigit := AList.update p content (minigit st)\<rparr>"

definition write_work :: "string \<Rightarrow> string \<Rightarrow> repo \<Rightarrow> repo" where
  "write_work name content st = st\<lparr>workdir := AList.update name content (workdir st)\<rparr>"

text \<open>
  The loop \<open>for (entry : fs::directory_iterator(".")) if (entry.path().filename() !=
  ".minigit") fs::remove_all(entry.path())\<close>: every entry of the current directory other
  than the repository directory is removed.
\<close>

definition clear_workdir :: "repo \<Rightarrow> repo" where
  "clear_workdir st = st\<lparr>workdir := []\<rparr>"

section \<open>MiniGit-Project.cpp\<close>

subsection \<open>computeSHA1 and CommitNode\<close>

definition hex_digit :: "nat \<Rightarrow> char" where
  "hex_digit n = ''0123456789abcdef'' ! (n mod 16)"

text \<open>\<open>ss << std::hex << std::setw(2) << std::setfill('0') << (int)hash[i]\<close>\<close>

definition hex_byte :: "8 word \<Rightarrow> string" where
  "hex_byte b = [hex_digit (unat b div 16), hex_digit (unat b mod 16)]"

definition computeSHA1 :: "env \<Rightarrow> string \<Rightarrow> string" where
  "computeSHA1 e content = concat (map (\<lambda>i. hex_byte (SHA1 e content i)) [0..<20])"

definition format_timestamp :: "env \<Rightarrow> int \<Rightarrow> string" where
  "format_timestamp e t = put_time e t"

record CommitNode =
  hash :: string
  message :: string
  timestamp :: string
  parent_hash :: string
  parent_hashes :: "string list"
  tracked_files :: smap

definition calculate_hash :: "env \<Rightarrow> CommitNode \<Rightarrow> CommitNode" where
  "calculate_hash e c =
     c\<lparr>hash := computeSHA1 e
          (message c @ timestamp c @ parent_hash c @ concat (parent_hashes c)
           @ concat (map (\<lambda>pair. fst pair @ snd pair) (tracked_files c)))\<rparr>"

text \<open>The constructor \<open>CommitNode(msg, parent_h, files_map)\<close>.\<close>

definition new_CommitNode :: "env \<Rightarrow> string \<Rightarrow> string \<Rightarrow> smap \<Rightarrow> CommitNode" where
  "new_CommitNode e msg parent_h files_map =
     calculate_hash e
       \<lparr>hash = [], message = msg, timestamp = format_timestamp e (clock e),
        parent_hash = parent_h,
        parent_hashes = (if parent_h \<noteq> [] then [parent_h] else []),
        tracked_files = files_map\<rparr>"

definition add_parent :: "string \<Rightarrow> CommitNode \<Rightarrow> CommitNode" where
  "add_parent parent_h c =
     (let phs = parent_hashes c @ [parent_h]
      in c\<lparr>parent_hashes := phs,
           parent_hash := (if length phs = 1 then hd phs else parent_hash c)\<rparr>)"

subsection \<open>Blobs, commit objects and HEAD\<close>

definition save_blob :: "env \<Rightarrow> string \<Rightarrow> repo \<Rightarrow> string \<times> repo" where
  "save_blob e content st =
     (let h = computeSHA1 e content; blob_path = ''objects/'' @ h
      in if read_path st blob_path = None then (h, write_path blob_path content st)
         else (h, st))"

definition read_blob :: "repo \<Rightarrow> string \<Rightarrow> string" where
  "read_blob st h =
     (case read_path st (''objects/'' @ h) of None \<Rightarrow> [] | Some content \<Rightarrow> content)"

text \<open>
  \<open>ofs << parent_hashes[i] << (i == size - 1 ? "" : ",")\<close> over the parents.
\<close>

fun join_commas :: "string list \<Rightarrow> string" where
  "join_commas [] = []"
| "join_commas [p] = p"
| "join_commas (p # ps) = p @ '','' @ join_commas ps"

definition commit_text :: "CommitNode \<Rightarrow> string" where
  "commit_text c =
     ''hash:'' @ hash c @ [nl]
     @ ''message:'' @ message c @ [nl]
     @ ''timestamp:'' @ timestamp c @ [nl]
     @ ''parent_hash:'' @ join_commas (parent_hashes c) @ [nl]
     @ concat (map (\<lambda>pair. ''file:'' @ fst pair @ '':'' @ snd pair @ [nl]) (tracked_files c))"

definition save_commit_object :: "CommitNode \<Rightarrow> repo \<Rightarrow> repo" where
  "save_commit_object c st = write_path (''commits/'' @ hash c) (commit_text c) st"

text \<open>
  One iteration of the \<open>while (std::getline(ifs, line))\<close> loop of \<open>read_commit_object\<close>,
  on the record of the local variables \<open>commit_hash_from_file\<close>, \<open>msg\<close>, \<open>ts\<close>, \<open>p_h_str\<close>,
  \<open>p_hs\<close> and \<open>files_map\<close>.
\<close>

definition parse_commit_line :: "string \<Rightarrow> CommitNode \<Rightarrow> CommitNode" where
  "parse_commit_line line c =
     (if starts_with ''hash:'' line then c\<lparr>hash := drop 5 line\<rparr>
      else if starts_with ''message:'' line then c\<lparr>message := drop 8 line\<rparr>
      else if starts_with ''timestamp:'' line then c\<lparr>timestamp := drop 10 line\<rparr>
      else if starts_with ''parent_hash:'' line then
        (let p_hs = parent_hashes c @ getlines_from (CHR '','') [] (drop 12 line)
         in c\<lparr>parent_hashes := p_hs,
              parent_hash := (if p_hs \<noteq> [] then hd p_hs else parent_hash c)\<rparr>)
      else if starts_with ''file:'' line then
        (let file_info = drop 5 line
         in if CHR '':'' \<in> set file_info
            then c\<lparr>tracked_files :=
                     map_set (takeWhile (\<lambda>x. x \<noteq> CHR '':'') file_info)
                             (drop 1 (dropWhile (\<lambda>x. x \<noteq> CHR '':'') file_info))
                             (tracked_files c)\<rparr>
            else c)
      else c)"

definition parse_commit :: "string \<Rightarrow> CommitNode" where
  "parse_commit text =
     fold parse_commit_line (getlines text)
       \<lparr>hash = [], message = [], timestamp = [], parent_hash = [], parent_hashes = [],
        tracked_files = []\<rparr>"

definition read_commit_object :: "env \<Rightarrow> repo \<Rightarrow> string \<Rightarrow> CommitNode" where
  "read_commit_object e st h =
     (case read_path st (''commits/'' @ h) of
        None \<Rightarrow> new_CommitNode e [] [] []
      | Some text \<Rightarrow> parse_commit text)"

definition get_head_commit_hash :: "repo \<Rightarrow> string" where
  "get_head_commit_hash st =
     (case read_path st ''refs/HEAD'' of
        None \<Rightarrow> []
      | Some content \<Rightarrow>
          (let head_content = getline_first content
           in if starts_with ''ref: '' head_content
              then (case read_path st (drop 5 head_content) of
                      Some ref_file \<Rightarrow> getline_first ref_file
                    | None \<Rightarrow> head_content)
              else head_content))"

definition update_head :: "string \<Rightarrow> repo \<Rightarrow> repo" where
  "update_head h st =
     (let head_content =
            (case read_path st ''refs/HEAD'' of None \<Rightarrow> [] | Some c \<Rightarrow> getline_first c)
      in if starts_with ''ref: refs/heads/'' head_content
         then write_path (''refs/heads/'' @ drop 16 head_content) (h @ [nl]) st
         else write_path ''refs/HEAD'' (h @ [nl]) st)"

definition index_text :: "smap \<Rightarrow> string" where
  "index_text m = concat (map (\<lambda>pair. fst pair @ '' '' @ snd pair @ [nl]) m)"

definition save_staging_area :: "repo \<Rightarrow> repo" where
  "save_staging_area st = write_path ''index'' (index_text (staging_area st)) st"

subsection \<open>commit\<close>

text \<open>
  The commands print what they did and return \<open>void\<close>; the model returns the last
  report a command printed together with the new state.
\<close>

datatype commit_report = Nothing_to_commit | Committed string

definition commit :: "env \<Rightarrow> string \<Rightarrow> repo \<Rightarrow> commit_report \<times> repo" where
  "commit e msg st =
     (if staging_area st = [] then (Nothing_to_commit, st)
      else
        (let parent0 = get_head_commit_hash st;
             parent = (if starts_with ''ref: '' parent0 then [] else parent0);
             new_commit = new_CommitNode e msg parent (staging_area st);
             st1 = save_commit_object new_commit st;
             st2 = update_head (hash new_commit) st1;
             st3 = st2\<lparr>staging_area := []\<rparr>
         in (Committed (hash new_commit), save_staging_area st3)))"

subsection \<open>checkout\<close>


text \<open>
  The second half of \<open>checkout\<close> (lines 258 to 285): with a non-empty commit name the
  working directory is emptied first, then the commit is read and its files are written.
\<close>

definition restore_files :: "smap \<Rightarrow> repo \<Rightarrow> repo" where
  "restore_files files st =
     fold (\<lambda>file_pair s. write_work (fst file_pair) (read_blob s (snd file_pair)) s) files st"



subsection \<open>Ancestors and the common ancestor\<close>

text \<open>
  The \<open>for\<close> loop of \<open>getAncestors\<close> over the parents of one commit: a parent not yet in
  \<open>ancestors\<close> is inserted and pushed on the stack \<open>q\<close>. The \<open>std::unordered_set\<close>
  \<open>ancestors\<close> is the list of its elements in insertion order.
\<close>

definition visit_parents ::
  "string list \<Rightarrow> string list \<times> string list \<Rightarrow> string list \<times> string list" where
  "visit_parents parents aq =
     fold (\<lambda>parent (ancestors, q).
             if parent \<in> set ancestors then (ancestors, q)
             else (ancestors @ [parent], q @ [parent]))
          parents aq"

text \<open>
  Every name that some stored commit object lists as a parent. It bounds what the loop of
  \<open>getAncestors\<close> can insert, which is what makes the loop end.
\<close>

definition stored_parents :: "repo \<Rightarrow> string set" where
  "stored_parents st = (\<Union>entry \<in> set (minigit st). set (parent_hashes (parse_commit (snd entry))))"

function getAncestors_loop ::
  "env \<Rightarrow> repo \<Rightarrow> string list \<Rightarrow> string list \<Rightarrow> string list" where
  "getAncestors_loop e st q ancestors =
     (if q = [] then ancestors
      else
        (let current_hash = last q;
             q1 = butlast q;
             c = read_commit_object e st current_hash
         in if hash c = [] then getAncestors_loop e st q1 ancestors
            else getAncestors_loop e st
                   (snd (visit_parents (parent_hashes c) (ancestors, q1)))
                   (fst (visit_parents (parent_hashes c) (ancestors, q1)))))"
  by pat_completeness auto

definition getAncestors :: "env \<Rightarrow> repo \<Rightarrow> string \<Rightarrow> string list" where
  "getAncestors e st h =
     (if h \<noteq> [] then getAncestors_loop e st [h] [h] else getAncestors_loop e st [] [])"

text \<open>
  \<open>find_common_ancestor\<close> iterates over the unordered set \<open>ancestors1\<close> and returns the
  commit of the first element that is also in \<open>ancestors2\<close>.
\<close>

definition find_common_ancestor :: "env \<Rightarrow> repo \<Rightarrow> string \<Rightarrow> string \<Rightarrow> CommitNode" where
  "find_common_ancestor e st hash1 hash2 =
     (let ancestors1 = getAncestors e st hash1;
          ancestors2 = getAncestors e st hash2
      in case filter (\<lambda>anc. anc \<in> set ancestors2) (uset_order e ancestors1) of
           [] \<Rightarrow> new_CommitNode e [] [] []
         | anc # _ \<Rightarrow> read_commit_object e st anc)"

subsection \<open>merge\<close>

definition conflict_text :: "string \<Rightarrow> string \<Rightarrow> string" where
  "conflict_text current_content incoming_content =
     ''<<<<<<< HEAD'' @ [nl] @ current_content @ ''======='' @ [nl] @ incoming_content
     @ ''>>>>>>> incoming'' @ [nl]"

definition add_conflict_markers :: "string \<Rightarrow> string \<Rightarrow> string \<Rightarrow> repo \<Rightarrow> repo" where
  "add_conflict_markers filename current_content incoming_content st =
     write_work filename (conflict_text current_content incoming_content) st"

definition get_current_branch_name :: "repo \<Rightarrow> string" where
  "get_current_branch_name st =
     (case read_path st ''refs/HEAD'' of
        None \<Rightarrow> ''master''
      | Some content \<Rightarrow>
          (let head_content = getline_first content
           in if starts_with ''ref: refs/heads/'' head_content then drop 16 head_content
              else ''detached HEAD''))"

text \<open>
  The state of the two loops of \<open>merge\<close>: the map \<open>merged_files\<close>, the flag \<open>conflict\<close>
  and the repository (only its working directory changes, where conflict markers are
  written).
\<close>

record merge_state =
  merged_files :: smap
  conflict :: bool
  disk :: repo

definition mark_conflict :: "string \<Rightarrow> string \<Rightarrow> string \<Rightarrow> merge_state \<Rightarrow> merge_state" where
  "mark_conflict filename current_blob_hash target_blob_hash ms =
     ms\<lparr>conflict := True,
        disk := add_conflict_markers filename
                  (read_blob (disk ms) current_blob_hash)
                  (read_blob (disk ms) target_blob_hash) (disk ms)\<rparr>"

text \<open>The body of the loop over the files of the target branch (lines 326 to 375).\<close>

definition merge_target_file ::
  "smap \<Rightarrow> smap \<Rightarrow> smap \<Rightarrow> string \<times> string \<Rightarrow> merge_state \<Rightarrow> merge_state" where
  "merge_target_file ancestor_files current_files target_files target_file_pair ms =
     (let filename = fst target_file_pair;
          target_blob_hash = snd target_file_pair;
          current_blob_hash = map_at current_files filename;
          ancestor_blob_hash = map_at ancestor_files filename
      in if current_blob_hash = [] \<and> ancestor_blob_hash = [] then
           ms\<lparr>merged_files := map_set filename target_blob_hash (merged_files ms)\<rparr>
         else if current_blob_hash = [] \<and> ancestor_blob_hash \<noteq> [] then
           (if target_blob_hash \<noteq> ancestor_blob_hash
            then mark_conflict filename current_blob_hash target_blob_hash ms
            else ms\<lparr>merged_files := map_erase filename (merged_files ms)\<rparr>)
         else if current_blob_hash \<noteq> [] \<and> ancestor_blob_hash = [] then
           (if map_count target_files filename \<and> target_blob_hash \<noteq> current_blob_hash
            then mark_conflict filename current_blob_hash target_blob_hash ms
            else ms)
         else
           (if current_blob_hash = target_blob_hash then ms
            else if current_blob_hash = ancestor_blob_hash then
              ms\<lparr>merged_files := map_set filename target_blob_hash (merged_files ms)\<rparr>
            else if target_blob_hash = ancestor_blob_hash then ms
            else mark_conflict filename current_blob_hash target_blob_hash ms))"

text \<open>The body of the loop over the files of the current commit (lines 378 to 394).\<close>

definition merge_current_file ::
  "smap \<Rightarrow> smap \<Rightarrow> string \<times> string \<Rightarrow> merge_state \<Rightarrow> merge_state" where
  "merge_current_file ancestor_files target_files current_file_pair ms =
     (let filename = fst current_file_pair;
          current_blob_hash = snd current_file_pair;
          target_blob_hash = map_at target_files filename;
          ancestor_blob_hash = map_at ancestor_files filename
      in if \<not> map_count target_files filename \<and> ancestor_blob_hash \<noteq> []
            \<and> current_blob_hash = ancestor_blob_hash then
           ms\<lparr>merged_files := map_erase filename (merged_files ms)\<rparr>
         else if \<not> map_count target_files filename \<and> ancestor_blob_hash \<noteq> []
            \<and> current_blob_hash \<noteq> ancestor_blob_hash then
           mark_conflict filename current_blob_hash target_blob_hash ms
         else ms)"

definition merge_loops :: "smap \<Rightarrow> smap \<Rightarrow> smap \<Rightarrow> repo \<Rightarrow> merge_state" where
  "merge_loops ancestor_files current_files target_files st =
     fold (merge_current_file ancestor_files target_files) current_files
       (fold (merge_target_file ancestor_files current_files target_files) target_files
          \<lparr>merged_files = current_files, conflict = False, disk = st\<rparr>)"

datatype merge_report =
    Branch_does_not_exist
  | Already_up_to_date
  | Could_not_find_common_ancestor
  | Automatic_merge_failed
  | Merge_successful string

text \<open>
  The first lines of \<open>merge\<close> (290 to 295): the name of the current commit. When
  \<open>get_head_commit_hash\<close> hands back a \<open>ref: \<close> line, the file it names is read; if that
  file cannot be opened, \<open>std::getline\<close> leaves the string as it is.
\<close>

definition current_head_hash :: "repo \<Rightarrow> string" where
  "current_head_hash st =
     (let head0 = get_head_commit_hash st
      in if starts_with ''ref: '' head0
         then (case read_path st (drop 5 head0) of
                 Some branch_file \<Rightarrow> getline_first branch_file
               | None \<Rightarrow> head0)
         else head0)"

definition merge :: "env \<Rightarrow> string \<Rightarrow> repo \<Rightarrow> merge_report \<times> repo" where
  "merge e branch_name st =
     (let current_branch_head_hash = current_head_hash st
      in case read_path st (''refs/heads/'' @ branch_name) of
           None \<Rightarrow> (Branch_does_not_exist, st)
         | Some target_branch_file \<Rightarrow>
             (let target_branch_head_hash = getline_first target_branch_file
              in if current_branch_head_hash = target_branch_head_hash
                 then (Already_up_to_date, st)
                 else
                   (let common_ancestor =
                          find_common_ancestor e st current_branch_head_hash
                            target_branch_head_hash
                    in if hash common_ancestor = [] then (Could_not_find_common_ancestor, st)
                       else
                         (let current_head_commit =
                                read_commit_object e st current_branch_head_hash;
                              target_head_commit =
                                read_commit_object e st target_branch_head_hash;
                              ms = merge_loops (tracked_files common_ancestor)
                                     (tracked_files current_head_commit)
                                     (tracked_files target_head_commit) st
                          in if conflict ms then (Automatic_merge_failed, disk ms)
                             else
                               (let st1 = restore_files (merged_files ms)
                                            (clear_workdir (disk ms));
                                    merge_message =
                                      ''Merge branch '' @ [CHR 0x27] @ branch_name @ [CHR 0x27]
                                      @ '' into '' @ get_current_branch_name st1;
                                    merge_commit =
                                      add_parent target_branch_head_hash
                                        (add_parent current_branch_head_hash
                                           (new_CommitNode e merge_message []
                                              (merged_files ms)));
                                    st2 = save_commit_object merge_commit st1;
                                    st3 = update_head (hash merge_commit) st2;
                                    st4 = st3\<lparr>staging_area := []\<rparr>
                                in (Merge_successful (hash merge_commit),
                                    save_staging_area st4))))))"

section \<open>The variant with generate_simple_hash (src/unnamed/part_002)\<close>

text \<open>
  This variant keeps \<open>HEAD\<close> directly below \<open>.minigit\<close> and stores blobs and commits
  side by side in \<open>objects\<close>. Names that MiniGit-Project.cpp also uses carry the suffix
  \<open>_p2\<close> here.
\<close>

subsection \<open>generate_simple_hash\<close>

function digits_of :: "nat \<Rightarrow> nat \<Rightarrow> string" where
  "digits_of base n =
     (if base < 2 \<or> n < base then [hex_digit n]
      else digits_of base (n div base) @ [hex_digit (n mod base)])"
  by pat_completeness auto
termination
  by (relation "measure (\<lambda>(base, n). n)") auto

text \<open>\<open>std::to_string\<close> of the \<open>long long\<close> count of seconds and of a \<open>size_t\<close>.\<close>

definition to_string_int :: "int \<Rightarrow> string" where
  "to_string_int i = (if i < 0 then CHR ''-'' # digits_of 10 (nat (- i)) else digits_of 10 (nat i))"

definition to_string_size_t :: "64 word \<Rightarrow> string" where
  "to_string_size_t w = digits_of 10 (unat w)"

text \<open>\<open>ss << std::hex << std::setw(16) << std::setfill('0') << content_hash\<close>\<close>

definition hex_setw16 :: "64 word \<Rightarrow> string" where
  "hex_setw16 w =
     (let ds = digits_of 16 (unat w) in replicate (16 - length ds) (CHR ''0'') @ ds)"

definition generate_simple_hash :: "env \<Rightarrow> string \<Rightarrow> string" where
  "generate_simple_hash e content =
     (let timestamp = clock e;
          data_to_hash = content @ to_string_int timestamp
                         @ to_string_size_t (hasher e content);
          content_hash = hasher e data_to_hash
      in hex_setw16 content_hash)"

subsection \<open>CommitNode, serialize and deserialize\<close>

record CommitNode_p2 =
  hash_p2 :: string
  message_p2 :: string
  timestamp_p2 :: string
  parent_hashes_p2 :: "string list"
  tracked_files_p2 :: smap

text \<open>The default constructor and the constructor \<open>CommitNode(msg, parents, files_map)\<close>.\<close>

definition default_CommitNode_p2 :: CommitNode_p2 where
  "default_CommitNode_p2 =
     \<lparr>hash_p2 = [], message_p2 = [], timestamp_p2 = [], parent_hashes_p2 = [],
      tracked_files_p2 = []\<rparr>"

definition new_CommitNode_p2 :: "env \<Rightarrow> string \<Rightarrow> string list \<Rightarrow> smap \<Rightarrow> CommitNode_p2" where
  "new_CommitNode_p2 e msg parents files_map =
     \<lparr>hash_p2 = [], message_p2 = msg, timestamp_p2 = put_time e (clock e),
      parent_hashes_p2 = parents, tracked_files_p2 = files_map\<rparr>"

definition serialize :: "CommitNode_p2 \<Rightarrow> string" where
  "serialize c =
     ''tree'' @ [nl]
     @ concat (map (\<lambda>entry. ''blob '' @ snd entry @ '' '' @ fst entry @ [nl])
                 (tracked_files_p2 c))
     @ concat (map (\<lambda>p. ''parent '' @ p @ [nl]) (parent_hashes_p2 c))
     @ ''author MiniGit <minigit@example.com> '' @ timestamp_p2 c @ [nl]
     @ ''committer MiniGit <minigit@example.com> '' @ timestamp_p2 c @ [nl] @ [nl]
     @ message_p2 c @ [nl]"

text \<open>
  \<open>operator>>\<close> into a \<open>std::string\<close>: white space (\<open>std::isspace\<close> in the C locale) is
  skipped, then characters are taken up to the next white space. \<open>read_word\<close> returns the
  word and the rest of the input; when nothing is left the word is empty, as the default
  constructed string of the source stays.
\<close>

definition isspace :: "char \<Rightarrow> bool" where
  "isspace c = (c \<in> {CHR '' '', CHR 0x09, CHR 0x0A, CHR 0x0B, CHR 0x0C, CHR 0x0D})"

definition read_word :: "string \<Rightarrow> string \<times> string" where
  "read_word s =
     (let s1 = dropWhile isspace s
      in (takeWhile (\<lambda>c. \<not> isspace c) s1, dropWhile (\<lambda>c. \<not> isspace c) s1))"

text \<open>
  The local variables of \<open>deserialize\<close>, and one iteration of its
  \<open>while (std::getline(iss, line))\<close> loop.
\<close>

record parse_state =
  msg :: string
  parents :: "string list"
  files :: smap
  loaded_timestamp :: string
  in_message :: bool

definition deserialize_line :: "string \<Rightarrow> parse_state \<Rightarrow> parse_state" where
  "deserialize_line line ps =
     (if line = [] \<and> \<not> in_message ps then ps\<lparr>in_message := True\<rparr>
      else if in_message ps then ps\<lparr>msg := msg ps @ line @ [nl]\<rparr>
      else if starts_with ''blob '' line then
        (let type_rest = read_word line;
             blob_hash_rest = read_word (snd type_rest);
             filename_rest = read_word (snd blob_hash_rest)
         in ps\<lparr>files := map_set (fst filename_rest) (fst blob_hash_rest) (files ps)\<rparr>)
      else if starts_with ''parent '' line then ps\<lparr>parents := parents ps @ [drop 7 line]\<rparr>
      else if starts_with ''author '' line then
        (if length line \<ge> 26 then ps\<lparr>loaded_timestamp := drop (length line - 19) line\<rparr>
         else ps)
      else ps)"

definition deserialize :: "env \<Rightarrow> string \<Rightarrow> string \<Rightarrow> CommitNode_p2" where
  "deserialize e hash_from_file content =
     (let ps = fold deserialize_line (getlines content)
                 \<lparr>msg = [], parents = [], files = [], loaded_timestamp = [],
                  in_message = False\<rparr>;
          msg1 = (if msg ps \<noteq> [] \<and> last (msg ps) = nl then butlast (msg ps) else msg ps);
          c = (new_CommitNode_p2 e msg1 (parents ps) (files ps))\<lparr>hash_p2 := hash_from_file\<rparr>
      in if loaded_timestamp ps \<noteq> [] then c\<lparr>timestamp_p2 := loaded_timestamp ps\<rparr> else c)"

subsection \<open>Blobs, commits and HEAD\<close>

definition save_blob_p2 :: "env \<Rightarrow> string \<Rightarrow> repo \<Rightarrow> string \<times> repo" where
  "save_blob_p2 e content st =
     (let h = generate_simple_hash e content
      in (h, write_path (''objects/'' @ h) content st))"

definition read_blob_p2 :: "repo \<Rightarrow> string \<Rightarrow> string" where
  "read_blob_p2 st h =
     (case read_path st (''objects/'' @ h) of None \<Rightarrow> [] | Some content \<Rightarrow> content)"

definition save_commit :: "CommitNode_p2 \<Rightarrow> repo \<Rightarrow> repo" where
  "save_commit c st = write_path (''objects/'' @ hash_p2 c) (serialize c) st"

definition read_commit :: "env \<Rightarrow> repo \<Rightarrow> string \<Rightarrow> CommitNode_p2" where
  "read_commit e st h =
     (case read_path st (''objects/'' @ h) of
        None \<Rightarrow> default_CommitNode_p2
      | Some content \<Rightarrow> deserialize e h content)"

definition get_head_hash :: "repo \<Rightarrow> string" where
  "get_head_hash st =
     (case read_path st ''HEAD'' of
        None \<Rightarrow> []
      | Some content \<Rightarrow>
          (let line = getline_first content
           in if starts_with ''ref: '' line
              then (case read_path st (drop 5 line) of
                      None \<Rightarrow> []
                    | Some ref_file \<Rightarrow> getline_first ref_file)
              else line))"

definition update_head_p2 :: "string \<Rightarrow> repo \<Rightarrow> repo" where
  "update_head_p2 new_hash st =
     (case read_path st ''HEAD'' of
        None \<Rightarrow> st
      | Some content \<Rightarrow>
          (let line = getline_first content
           in if starts_with ''ref: '' line then write_path (drop 5 line) (new_hash @ [nl]) st
              else write_path ''HEAD'' (new_hash @ [nl]) st))"

definition checkout_files :: "smap \<Rightarrow> repo \<Rightarrow> repo" where
  "checkout_files files_map st =
     fold (\<lambda>entry s. write_work (fst entry) (read_blob_p2 s (snd entry)) s) files_map st"

subsection \<open>commit\<close>

definition commit_p2 :: "env \<Rightarrow> string \<Rightarrow> repo \<Rightarrow> commit_report \<times> repo" where
  "commit_p2 e message_text st =
     (if staging_area st = [] then (Nothing_to_commit, st)
      else
        (let parent = get_head_hash st;
             c0 = new_CommitNode_p2 e message_text (if parent \<noteq> [] then [parent] else [])
                    (staging_area st);
             new_commit = c0\<lparr>hash_p2 := generate_simple_hash e (serialize c0)\<rparr>;
             st1 = save_commit new_commit st;
             st2 = update_head_p2 (hash_p2 new_commit) st1
         in (Committed (hash_p2 new_commit), st2\<lparr>staging_area := []\<rparr>)))"

subsection \<open>find_lca\<close>

text \<open>
  The two \<open>while (!q.empty())\<close> loops of \<open>find_lca\<close> on the queue \<open>q\<close>, as partial
  functions: \<open>None\<close> stands for a loop that does not return. The first loop collects
  the ancestors of \<open>hash1\<close> in \<open>visited\<close>; the second follows the parents of \<open>hash2\<close>
  without remembering what it has seen.
\<close>

partial_function (option) lca_visit ::
  "env \<Rightarrow> repo \<Rightarrow> string list \<Rightarrow> string list \<Rightarrow> string list option" where
  "lca_visit e st q visited =
     (case q of
        [] \<Rightarrow> Some visited
      | cur # q1 \<Rightarrow>
          (let visited1 = (if cur \<in> set visited then visited else visited @ [cur]);
               c = read_commit e st cur
           in lca_visit e st
                (q1 @ filter (\<lambda>p. p \<noteq> [] \<and> p \<notin> set visited1) (parent_hashes_p2 c))
                visited1))"

partial_function (option) lca_search ::
  "env \<Rightarrow> repo \<Rightarrow> string list \<Rightarrow> string list \<Rightarrow> string option" where
  "lca_search e st q visited =
     (case q of
        [] \<Rightarrow> Some []
      | cur # q1 \<Rightarrow>
          if cur \<in> set visited then Some cur
          else lca_search e st
                 (q1 @ filter (\<lambda>p. p \<noteq> []) (parent_hashes_p2 (read_commit e st cur)))
                 visited)"

text \<open>
  Every name that some stored object lists as a parent when \<open>read_commit\<close> reads it. It
  bounds what the first loop can push, which is what makes that loop end.
\<close>

definition stored_parents_p2 :: "env \<Rightarrow> repo \<Rightarrow> string set" where
  "stored_parents_p2 e st =
     (\<Union>h \<in> {h. ''objects/'' @ h \<in> fst ` set (minigit st)}.
        set (parent_hashes_p2 (read_commit e st h)))"

definition find_lca :: "env \<Rightarrow> repo \<Rightarrow> string \<Rightarrow> string \<Rightarrow> string option" where
  "find_lca e st hash1 hash2 =
     (if hash1 = [] \<or> hash2 = [] then Some []
      else case lca_visit e st [hash1] [] of
             None \<Rightarrow> None
           | Some visited \<Rightarrow> lca_search e st [hash2] visited)"

subsection \<open>merge\<close>

definition conflict_text_p2 :: "string \<Rightarrow> string \<Rightarrow> string" where
  "conflict_text_p2 ours theirs =
     ''<<<<<<< OURS'' @ [nl] @ ours @ [nl] @ ''======='' @ [nl] @ theirs @ [nl]
     @ ''>>>>>>> THEIRS'' @ [nl]"

definition write_conflict_file :: "string \<Rightarrow> string \<Rightarrow> string \<Rightarrow> repo \<Rightarrow> repo" where
  "write_conflict_file filename ours theirs st =
     write_work filename (conflict_text_p2 ours theirs) st"

text \<open>
  \<open>merge_file_maps\<close>: the state of its loop is the map \<open>merged\<close>, the flag
  \<open>has_conflict\<close> and the repository. \<open>all_files\<close> is an unordered set, filled from the
  keys of \<open>base\<close>, \<open>ours\<close> and \<open>theirs\<close> in this order (a key is kept where it is
  inserted first).
\<close>

record merge_state_p2 =
  merged :: smap
  has_conflict :: bool
  disk_p2 :: repo

definition merge_one_file :: "smap \<Rightarrow> smap \<Rightarrow> smap \<Rightarrow> string \<Rightarrow> merge_state_p2 \<Rightarrow> merge_state_p2" where
  "merge_one_file base ours theirs f ms =
     (let base_hash = map_at base f;
          our_hash = map_at ours f;
          their_hash = map_at theirs f
      in if our_hash = their_hash then ms\<lparr>merged := map_set f our_hash (merged ms)\<rparr>
         else if base_hash = our_hash then ms\<lparr>merged := map_set f their_hash (merged ms)\<rparr>
         else if base_hash = their_hash then ms\<lparr>merged := map_set f our_hash (merged ms)\<rparr>
         else
           (let our_content = (if our_hash = [] then [] else read_blob_p2 (disk_p2 ms) our_hash);
                their_content =
                  (if their_hash = [] then [] else read_blob_p2 (disk_p2 ms) their_hash)
            in ms\<lparr>has_conflict := True,
                  merged := map_set f [] (merged ms),
                  disk_p2 := write_conflict_file f our_content their_content (disk_p2 ms)\<rparr>))"

definition merge_file_maps :: "env \<Rightarrow> smap \<Rightarrow> smap \<Rightarrow> smap \<Rightarrow> repo \<Rightarrow> merge_state_p2" where
  "merge_file_maps e base ours theirs st =
     (let all_files = rev (remdups (rev (map fst base @ map fst ours @ map fst theirs)))
      in fold (merge_one_file base ours theirs) (uset_order e all_files)
           \<lparr>merged = [], has_conflict = False, disk_p2 = st\<rparr>)"

datatype merge_report_p2 =
    Branch_missing
  | No_commits_to_merge_into
  | No_common_ancestor
  | Merge_commit_created bool string

text \<open>
  \<open>merge\<close> prints "Merge has conflicts!" or "Merge completed without conflicts." and then
  goes on to create the merge commit in both cases; the flag of \<open>Merge_commit_created\<close>
  records which of the two it printed.
\<close>

definition merge_p2 :: "env \<Rightarrow> string \<Rightarrow> repo \<Rightarrow> (merge_report_p2 \<times> repo) option" where
  "merge_p2 e branch_name st =
     (case read_path st (''refs/heads/'' @ branch_name) of
        None \<Rightarrow> Some (Branch_missing, st)
      | Some branch_file \<Rightarrow>
          (let current_hash = get_head_hash st
           in if current_hash = [] then Some (No_commits_to_merge_into, st)
              else
                (let their_hash = getline_first branch_file
                 in case find_lca e st current_hash their_hash of
                      None \<Rightarrow> None
                    | Some lca_hash \<Rightarrow>
                        if lca_hash = [] then Some (No_common_ancestor, st)
                        else
                          (let base_commit = read_commit e st lca_hash;
                               our_commit = read_commit e st current_hash;
                               their_commit = read_commit e st their_hash;
                               ms = merge_file_maps e (tracked_files_p2 base_commit)
                                      (tracked_files_p2 our_commit)
                                      (tracked_files_p2 their_commit) st;
                               c0 = new_CommitNode_p2 e
                                      (''Merge branch '' @ [CHR 0x27] @ branch_name @ [CHR 0x27])
                                      [current_hash, their_hash] (merged ms);
                               merge_commit =
                                 c0\<lparr>hash_p2 := generate_simple_hash e (serialize c0)\<rparr>;
                               st1 = save_commit merge_commit (disk_p2 ms);
                               st2 = update_head_p2 (hash_p2 merge_commit) st1
                           in Some (Merge_commit_created (has_conflict ms)
                                      (hash_p2 merge_commit),
                                    checkout_files (merged ms) st2)))))"

section \<open>The variant with a single parent (src/Branching.cpp)\<close>

text \<open>
  \<open>CommitNode\<close> of Branching.cpp has the members of the record \<open>CommitNode\<close> above; its
  constructor takes one parent and computes no hash, and nothing in the file writes
  \<open>parent_hashes\<close>. \<open>serialize\<close> always writes one \<open>parent\<close> line, empty for a root commit.
\<close>

definition new_CommitNode_b :: "env \<Rightarrow> string \<Rightarrow> string \<Rightarrow> smap \<Rightarrow> CommitNode" where
  "new_CommitNode_b e m parent_h files_map =
     \<lparr>hash = [], message = m, timestamp = put_time e (clock e), parent_hash = parent_h,
      parent_hashes = [], tracked_files = files_map\<rparr>"

definition serialize_b :: "CommitNode \<Rightarrow> string" where
  "serialize_b c =
     ''tree'' @ [nl]
     @ concat (map (\<lambda>pair. ''blob '' @ snd pair @ '' '' @ fst pair @ [nl]) (tracked_files c))
     @ ''parent '' @ parent_hash c @ [nl]
     @ ''author Your Name <your.email@example.com> '' @ timestamp c @ [nl]
     @ ''committer Your Name <your.email@example.com> '' @ timestamp c @ [nl]
     @ [nl]
     @ message c @ [nl]"

text \<open>
  \<open>s.rfind(c, pos)\<close> for a single character: the greatest index \<open>i \<le> pos\<close> with
  \<open>s[i] = c\<close>, \<open>npos\<close> (\<open>None\<close>) if there is none.
\<close>

definition rfind_char :: "char \<Rightarrow> string \<Rightarrow> nat \<Rightarrow> nat option" where
  "rfind_char c s pos =
     (case filter (\<lambda>i. s ! i = c) [0..<min (Suc pos) (length s)] of
        [] \<Rightarrow> None
      | i # is \<Rightarrow> Some (last (i # is)))"

text \<open>
  The local variables of \<open>deserialize\<close> and the body of its \<open>getline\<close> loop. The position
  \<open>line.length() - 1 - 19\<close> is computed in \<open>size_t\<close>: for a line shorter than 20
  characters it wraps around to a value beyond the end, and \<open>rfind\<close> then searches the
  whole line.
\<close>

record parse_state_b =
  msg_b :: string
  parent_b :: string
  files_b :: smap
  loaded_timestamp_b :: string
  in_message_block :: bool

definition deserialize_line_b :: "string \<Rightarrow> parse_state_b \<Rightarrow> parse_state_b" where
  "deserialize_line_b line ps =
     (if line = [] \<and> \<not> in_message_block ps then ps\<lparr>in_message_block := True\<rparr>
      else if in_message_block ps then ps\<lparr>msg_b := msg_b ps @ line @ [nl]\<rparr>
      else if starts_with ''blob '' line then
        (let type_rest = read_word line;
             hash_val_rest = read_word (snd type_rest);
             filename_rest = read_word (snd hash_val_rest)
         in ps\<lparr>files_b := map_set (fst filename_rest) (fst hash_val_rest) (files_b ps)\<rparr>)
      else if starts_with ''parent '' line then ps\<lparr>parent_b := drop 7 line\<rparr>
      else if starts_with ''author '' line then
        (case rfind_char (CHR '' '') line
                (if length line \<ge> 20 then length line - 20 else length line) of
           None \<Rightarrow> ps
         | Some date_time_start \<Rightarrow>
             ps\<lparr>loaded_timestamp_b := take 19 (drop (date_time_start + 1) line)\<rparr>)
      else ps)"

definition deserialize_b :: "env \<Rightarrow> string \<Rightarrow> string \<Rightarrow> CommitNode" where
  "deserialize_b e commit_hash_from_filename content =
     (let ps = fold deserialize_line_b (getlines content)
                 \<lparr>msg_b = [], parent_b = [], files_b = [], loaded_timestamp_b = [],
                  in_message_block = False\<rparr>;
          msg1 = (if msg_b ps \<noteq> [] \<and> last (msg_b ps) = nl then butlast (msg_b ps)
                  else msg_b ps);
          c = (new_CommitNode_b e msg1 (parent_b ps) (files_b ps))
                \<lparr>hash := commit_hash_from_filename\<rparr>
      in if loaded_timestamp_b ps = [] then c else c\<lparr>timestamp := loaded_timestamp_b ps\<rparr>)"


section \<open>Notions used to state the properties\<close>

text \<open>
  A parent link of the commit graph, as \<open>getAncestors\<close> of MiniGit-Project.cpp sees it:
  \<open>p\<close> is listed as a parent in the stored object of \<open>c\<close>. An object without a hash
  line counts as unreadable (\<open>commit.hash.empty()\<close>) and has no links.
\<close>

definition parent_link :: "env \<Rightarrow> repo \<Rightarrow> string \<Rightarrow> string \<Rightarrow> bool" where
  "parent_link e st c p =
     (hash (read_commit_object e st c) \<noteq> []
      \<and> p \<in> set (parent_hashes (read_commit_object e st c)))"

text \<open>
  A parent link as the loops of \<open>find_lca\<close> in part_002 follow it: a non-empty name in
  the parent list of the stored object of \<open>c\<close>.
\<close>

definition parent_link_p2 :: "env \<Rightarrow> repo \<Rightarrow> string \<Rightarrow> string \<Rightarrow> bool" where
  "parent_link_p2 e st c p = (p \<noteq> [] \<and> p \<in> set (parent_hashes_p2 (read_commit e st c)))"

text \<open>
  The commit records of the data model: the tree map is a \<open>std::map\<close> (strictly increasing
  keys) from paths to fingerprints, both non-empty and free of white space; a parent
  fingerprint has no line feed; the timestamp has the 19 characters of
  \<open>YYYY-MM-DD HH:MM:SS\<close>. The message is any string.
\<close>

definition is_word :: "string \<Rightarrow> bool" where
  "is_word s = (s \<noteq> [] \<and> list_all (\<lambda>c. \<not> isspace c) s)"

definition well_formed_commit :: "CommitNode_p2 \<Rightarrow> bool" where
  "well_formed_commit c =
     (sorted_wrt (<) (map fst (tracked_files_p2 c))
      \<and> list_all (\<lambda>entry. is_word (fst entry) \<and> is_word (snd entry)) (tracked_files_p2 c)
      \<and> list_all (\<lambda>p. nl \<notin> set p) (parent_hashes_p2 c)
      \<and> length (timestamp_p2 c) = 19 \<and> nl \<notin> set (timestamp_p2 c))"

text \<open>
  The same data model for the records of Branching.cpp: one parent fingerprint without
  line feed (empty for a root commit), and the member \<open>parent_hashes\<close>, which that file
  never fills, empty.
\<close>

definition well_formed_commit_b :: "CommitNode \<Rightarrow> bool" where
  "well_formed_commit_b c =
     (sorted_wrt (<) (map fst (tracked_files c))
      \<and> list_all (\<lambda>entry. is_word (fst entry) \<and> is_word (snd entry)) (tracked_files c)
      \<and> nl \<notin> set (parent_hash c) \<and> parent_hashes c = []
      \<and> length (timestamp c) = 19 \<and> nl \<notin> set (timestamp c))"




section \<open>A concrete world and concrete repositories\<close>

text \<open>
  The examples below run the model on these. \<open>fnv1a\<close> is the 64-bit FNV-1a hash, one of
  the functions \<open>std::hash<std::string>\<close> is implemented by; \<open>toy_digest\<close> stands in
  for the SHA-1 digest; the clock shows 1700000000 seconds, which \<open>put_time\<close> prints as
  a fixed date; an unordered set is iterated in insertion order.
\<close>

definition fnv1a :: "string \<Rightarrow> 64 word" where
  "fnv1a s = fold (\<lambda>c h. (h XOR of_char c) * 1099511628211) s 14695981039346656037"

definition toy_digest :: "string \<Rightarrow> nat \<Rightarrow> 8 word" where
  "toy_digest s i = of_nat (fold (\<lambda>c a. of_char c + 31 * a) s 7 + i)"

definition example_env :: env where
  "example_env =
     \<lparr>SHA1 = toy_digest, hasher = fnv1a, clock = 1700000000,
      put_time = (\<lambda>t. ''2023-11-14 22:13:20''), uset_order = (\<lambda>xs. xs)\<rparr>"

text \<open>
  A repository of MiniGit-Project.cpp: commit \<open>commit_A\<close> with file \<open>z\<close>; on \<open>master\<close>
  commit \<open>commit_B\<close> changes \<open>z\<close>; on \<open>feat\<close> commit \<open>commit_C\<close> changes \<open>z\<close> differently
  and adds \<open>n\<close>. \<open>HEAD\<close> is on \<open>master\<close>. The branch \<open>gone\<close> names a commit with no
  object, the branch \<open>torn\<close> names an object without a hash line.
\<close>

definition commit_A :: string where
  "commit_A = ''aaaaaaaaaaaaaaaaaaaaaaaaaaaaaaaaaaaaaaaa''"

definition commit_B :: string where
  "commit_B = ''bbbbbbbbbbbbbbbbbbbbbbbbbbbbbbbbbbbbbbbb''"

definition commit_C :: string where
  "commit_C = ''cccccccccccccccccccccccccccccccccccccccc''"

definition commit_D :: string where
  "commit_D = ''dddddddddddddddddddddddddddddddddddddddd''"

definition commit_E :: string where
  "commit_E = ''eeeeeeeeeeeeeeeeeeeeeeeeeeeeeeeeeeeeeeee''"

definition example_repo :: repo where
  "example_repo =
     \<lparr>minigit =
        [(''refs/HEAD'', ''ref: refs/heads/master'' @ [nl]),
         (''refs/heads/master'', commit_B @ [nl]),
         (''refs/heads/feat'', commit_C @ [nl]),
         (''refs/heads/gone'', commit_E @ [nl]),
         (''refs/heads/torn'', commit_D @ [nl]),
         (''commits/'' @ commit_A,
            commit_text \<lparr>hash = commit_A, message = ''base'',
              timestamp = ''2023-11-14 22:13:20'', parent_hash = [], parent_hashes = [],
              tracked_files = [(''z'', ''blobA'')]\<rparr>),
         (''commits/'' @ commit_B,
            commit_text \<lparr>hash = commit_B, message = ''ours'',
              timestamp = ''2023-11-14 22:13:20'', parent_hash = commit_A,
              parent_hashes = [commit_A], tracked_files = [(''z'', ''blobB'')]\<rparr>),
         (''commits/'' @ commit_C,
            commit_text \<lparr>hash = commit_C, message = ''theirs'',
              timestamp = ''2023-11-14 22:13:20'', parent_hash = commit_A,
              parent_hashes = [commit_A],
              tracked_files = [(''n'', ''blobN''), (''z'', ''blobC'')]\<rparr>),
         (''commits/'' @ commit_D, ''message:torn'' @ [nl]),
         (''objects/blobA'', ''A''),
         (''objects/blobB'', ''B''),
         (''objects/blobC'', ''C''),
         (''objects/blobN'', ''N'')],
      workdir = [(''z'', ''B'')],
      staging_area = []\<rparr>"


text \<open>A commit record of the variant with \<open>serialize\<close>, with a message of several lines.\<close>

definition example_commit_p2 :: CommitNode_p2 where
  "example_commit_p2 =
     \<lparr>hash_p2 = ''00000000000000aa'',
      message_p2 = ''Merge work'' @ [nl] @ [nl] @ ''second paragraph'' @ [nl],
      timestamp_p2 = ''2023-11-14 22:13:20'',
      parent_hashes_p2 = [''1111111111111111'', ''2222222222222222''],
      tracked_files_p2 = [(''a.txt'', ''3333333333333333''), (''b.txt'', ''4444444444444444'')]\<rparr>"

text \<open>A commit record of Branching.cpp, with a blank line in its message.\<close>

definition example_commit_b :: CommitNode where
  "example_commit_b =
     \<lparr>hash = ''000000000000000000000000000000bb'',
      message = ''Add parser'' @ [nl] @ [nl] @ ''details follow'',
      timestamp = ''2023-11-14 22:13:20'',
      parent_hash = ''00000000000000000000000000000055'',
      parent_hashes = [],
      tracked_files = [(''a.txt'', ''00000000000000000000000000000066''),
                       (''src/b.txt'', ''00000000000000000000000000000077'')]\<rparr>"

text \<open>
  The same world one second later, an empty repository, and a repository of the
  variant of part_002: one commit on \<open>main\<close> with the file \<open>a.txt\<close>, \<open>HEAD\<close> on \<open>main\<close>.
  \<open>example_merge_commit\<close> is the commit record that merging \<open>main\<close> into itself
  builds there, and \<open>merge_commit_text\<close> its serialization.
\<close>

definition later_env :: env where
  "later_env = example_env\<lparr>clock := 1700000001\<rparr>"

definition empty_repo :: repo where
  "empty_repo = \<lparr>minigit = [], workdir = [], staging_area = []\<rparr>"

definition example_repo_p2 :: repo where
  "example_repo_p2 =
     \<lparr>minigit =
        [(''HEAD'', ''ref: refs/heads/main'' @ [nl]),
         (''refs/heads/main'', ''00000000000000c0'' @ [nl]),
         (''objects/00000000000000c0'',
            serialize \<lparr>hash_p2 = ''00000000000000c0'', message_p2 = ''first'',
              timestamp_p2 = ''2023-11-14 22:13:20'', parent_hashes_p2 = [],
              tracked_files_p2 = [(''a.txt'', ''00000000000000b1'')]\<rparr>),
         (''objects/00000000000000b1'', ''hello'' @ [nl])],
      workdir = [(''a.txt'', ''hello'' @ [nl])],
      staging_area = []\<rparr>"

definition merge_commit_text :: string where
  "merge_commit_text = ''tree'' @ [nl] @ ''blob 00000000000000b1 a.txt'' @ [nl] @ ''parent 00000000000000c0'' @ [nl] @ ''parent 00000000000000c0'' @ [nl] @ ''author MiniGit <minigit@example.com> 2023-11-14 22:13:20'' @ [nl] @ ''committer MiniGit <minigit@example.com> 2023-11-14 22:13:20'' @ [nl] @ [nl] @ ''Merge branch '' @ [CHR 0x27] @ ''main'' @ [CHR 0x27] @ [nl]"

definition example_merge_commit :: CommitNode_p2 where
  "example_merge_commit =
     \<lparr>hash_p2 = [], message_p2 = ''Merge branch '' @ [CHR 0x27] @ ''main'' @ [CHR 0x27],
      timestamp_p2 = ''2023-11-14 22:13:20'',
      parent_hashes_p2 = [''00000000000000c0'', ''00000000000000c0''],
      tracked_files_p2 = [(''a.txt'', ''00000000000000b1'')]\<rparr>"

text \<open>
  The same repository with that merge commit stored: a commit whose two parents are the
  same commit, so that the traversal meets it twice.
\<close>

definition merged_repo_p2 :: repo where
  "merged_repo_p2 = write_path ''objects/11312ad5251ac23a'' merge_commit_text example_repo_p2"


section \<open>Properties\<close>

subsection \<open>Files and working directory\<close>

lemma read_write_path: "read_path (write_path p c st) q = (if q = p then Some c else read_path st q)"
  by (simp add: read_path_def write_path_def update_conv')



lemma staging_restore_files: "staging_area (restore_files fs st) = staging_area st"
  unfolding restore_files_def
  by (induction fs arbitrary: st) (simp_all add: write_work_def)




lemma length_computeSHA1: "length (computeSHA1 e content) = 40"
  by (simp add: computeSHA1_def hex_byte_def length_concat comp_def sum_list_triv)

lemma computeSHA1_not_empty: "computeSHA1 e content \<noteq> []"
  using length_computeSHA1 [of e content] by auto

lemma hash_new_CommitNode: "hash (new_CommitNode e m p fs) \<noteq> []"
  by (simp add: new_CommitNode_def calculate_hash_def computeSHA1_not_empty)

lemma files_new_CommitNode [simp]: "tracked_files (new_CommitNode e m p fs) = fs"
  by (simp add: new_CommitNode_def calculate_hash_def)



subsection \<open>getAncestors\<close>

lemma parents_missing [simp]: "parent_hashes (new_CommitNode e [] [] []) = []"
  by (simp add: new_CommitNode_def calculate_hash_def)

lemma parent_hashes_read_commit_object:
  "set (parent_hashes (read_commit_object e st h)) \<subseteq> stored_parents st"
proof (cases "read_path st (''commits/'' @ h)" )
  case None
  then show ?thesis by (simp add: read_commit_object_def)
next
  case (Some body)
  then have "(''commits/'' @ h, body) \<in> set (minigit st)"
    by (simp add: read_path_def map_of_SomeD)
  then show ?thesis
    using Some by (force simp add: read_commit_object_def stored_parents_def)
qed

lemma finite_stored_parents: "finite (stored_parents st)"
  by (simp add: stored_parents_def)

lemma visit_parents_Nil [simp]: "visit_parents [] aq = aq"
  by (simp add: visit_parents_def)

lemma visit_parents_Cons:
  "visit_parents (p # ps) (a, q) =
     (if p \<in> set a then visit_parents ps (a, q) else visit_parents ps (a @ [p], q @ [p]))"
  by (simp add: visit_parents_def)

lemma visit_parents_grow:
  "set (fst (visit_parents ps (a, q))) = set a \<union> set ps"
  by (induction ps arbitrary: a q) (auto simp add: visit_parents_Cons)

lemma visit_parents_same:
  "set ps \<subseteq> set a \<Longrightarrow> visit_parents ps (a, q) = (a, q)"
  by (induction ps arbitrary: a q) (auto simp add: visit_parents_Cons)

lemma visit_parents_queue:
  "set (snd (visit_parents ps (a, q))) = set q \<union> (set ps - set a)"
  by (induction ps arbitrary: a q) (auto simp add: visit_parents_Cons)

text \<open>
  The loop of \<open>getAncestors\<close> ends: each iteration either inserts a new name among the
  finitely many that stored commits list as parents, or leaves the set alone and
  shortens the stack.
\<close>

termination getAncestors_loop
proof (relation "measures [\<lambda>(e, st, q, a). card (stored_parents st - set a),
                           \<lambda>(e, st, q, a). length q]")
  show "wf (measures [\<lambda>(e, st, q, a). card (stored_parents st - set a),
                           \<lambda>(e, st, q, a). length q])"
    by simp
next
  fix e :: env and st q ancestors x xa xb
  assume "q \<noteq> []" "xa = butlast q"
  then show "((e, st, xa, ancestors), e, st, q, ancestors)
       \<in> measures [\<lambda>(e, st, q, a). card (stored_parents st - set a),
                           \<lambda>(e, st, q, a). length q]"
    by simp
next
  fix e st q ancestors x xa xb
  assume q: "q \<noteq> []" and x: "x = last q" and xa: "xa = butlast q"
    and xb: "xb = read_commit_object e st x"
  let ?ps = "parent_hashes xb"
  let ?r = "visit_parents ?ps (ancestors, xa)"
  have sub: "set ?ps \<subseteq> stored_parents st"
    using xb parent_hashes_read_commit_object by simp
  show "((e, st, snd ?r, fst ?r), e, st, q, ancestors)
       \<in> measures [\<lambda>(e, st, q, a). card (stored_parents st - set a),
                           \<lambda>(e, st, q, a). length q]"
  proof (cases "set ?ps \<subseteq> set ancestors")
    case True
    then have "?r = (ancestors, xa)" by (rule visit_parents_same)
    then show ?thesis using q xa by simp
  next
    case False
    have "stored_parents st - set (fst ?r) \<subset> stored_parents st - set ancestors"
      using False sub by (auto simp add: visit_parents_grow)
    then have "card (stored_parents st - set (fst ?r)) < card (stored_parents st - set ancestors)"
      by (intro psubset_card_mono) (simp_all add: finite_stored_parents)
    then show ?thesis by simp
  qed
qed


declare getAncestors_loop.simps [simp del]

lemma set_butlast_last: "q \<noteq> [] \<Longrightarrow> set q = insert (last q) (set (butlast q))"
  by (cases q rule: rev_cases) auto

lemma getAncestors_loop_closed:
  "set q \<subseteq> set a \<Longrightarrow>
   (\<forall>c \<in> set a - set q. \<forall>p. parent_link e st c p \<longrightarrow> p \<in> set a) \<Longrightarrow>
   set a \<subseteq> set (getAncestors_loop e st q a) \<and>
   (\<forall>c \<in> set (getAncestors_loop e st q a). \<forall>p. parent_link e st c p \<longrightarrow>
       p \<in> set (getAncestors_loop e st q a))"
proof (induction e st q a rule: getAncestors_loop.induct)
  case (1 e st q a)
  show ?case
  proof (cases "q = []")
    case True
    have "getAncestors_loop e st q a = a"
      using True by (subst getAncestors_loop.simps) simp
    then show ?thesis using "1.prems" True by simp
  next
    case False
    let ?cur = "last q"
    let ?q1 = "butlast q"
    let ?c = "read_commit_object e st ?cur"
    have q_split: "set q = insert ?cur (set ?q1)"
      using False by (rule set_butlast_last)
    have sub: "set ?q1 \<subseteq> set a"
      using "1.prems"(1) by (meson in_set_butlastD subset_iff)
    have old: "\<And>c p. c \<in> set a \<Longrightarrow> c \<notin> set ?q1 \<Longrightarrow> c \<noteq> ?cur \<Longrightarrow>
                parent_link e st c p \<Longrightarrow> p \<in> set a"
    proof -
      fix c p
      assume "c \<in> set a" "c \<notin> set ?q1" "c \<noteq> ?cur" and l: "parent_link e st c p"
      then have "c \<in> set a - set q" by (simp add: q_split)
      then show "p \<in> set a" using "1.prems"(2) l by blast
    qed
    show ?thesis
    proof (cases "hash ?c = []")
      case True
      have nolink: "\<And>p. \<not> parent_link e st ?cur p"
        using True by (simp add: parent_link_def)
      have inv: "\<forall>c \<in> set a - set ?q1. \<forall>p. parent_link e st c p \<longrightarrow> p \<in> set a"
        using old nolink by blast
      have "getAncestors_loop e st q a = getAncestors_loop e st ?q1 a"
        using False True by (subst getAncestors_loop.simps) (simp add: Let_def)
      then show ?thesis
        using "1.IH"(1) [OF False refl refl refl True sub inv] by simp
    next
      case hc: False
      let ?ps = "parent_hashes ?c"
      let ?a' = "fst (visit_parents ?ps (a, ?q1))"
      let ?q' = "snd (visit_parents ?ps (a, ?q1))"
      have links: "\<And>p. parent_link e st ?cur p \<Longrightarrow> p \<in> set ?ps"
        by (simp add: parent_link_def)
      have a': "set ?a' = set a \<union> set ?ps" by (rule visit_parents_grow)
      have q': "set ?q' = set ?q1 \<union> (set ?ps - set a)" by (rule visit_parents_queue)
      have sub': "set ?q' \<subseteq> set ?a'"
        unfolding a' q' using sub by blast
      have inv: "\<forall>c \<in> set ?a' - set ?q'. \<forall>p. parent_link e st c p \<longrightarrow> p \<in> set ?a'"
        unfolding a' q' using old links by blast
      have eq: "getAncestors_loop e st q a = getAncestors_loop e st ?q' ?a'"
        using False hc by (subst getAncestors_loop.simps) (simp add: Let_def)
      have "set a \<subseteq> set ?a'" unfolding a' by blast
      then show ?thesis
        unfolding eq using "1.IH"(2) [OF False refl refl refl hc sub' inv] by blast
    qed
  qed
qed

lemma getAncestors_loop_sound:
  "set q \<subseteq> set a \<Longrightarrow> (\<forall>c \<in> set a. (parent_link e st)\<^sup>*\<^sup>* h c) \<Longrightarrow>
   (\<forall>c \<in> set (getAncestors_loop e st q a). (parent_link e st)\<^sup>*\<^sup>* h c)"
proof (induction e st q a rule: getAncestors_loop.induct)
  case (1 e st q a)
  show ?case
  proof (cases "q = []")
    case True
    have "getAncestors_loop e st q a = a"
      using True by (subst getAncestors_loop.simps) simp
    then show ?thesis using "1.prems" by simp
  next
    case False
    let ?cur = "last q"
    let ?q1 = "butlast q"
    let ?c = "read_commit_object e st ?cur"
    have cur_q: "?cur \<in> set q" using False by simp
    have q1_sub: "set ?q1 \<subseteq> set a"
      using "1.prems"(1) by (meson in_set_butlastD subset_iff)
    show ?thesis
    proof (cases "hash ?c = []")
      case True
      have "getAncestors_loop e st q a = getAncestors_loop e st ?q1 a"
        using False True by (subst getAncestors_loop.simps) (simp add: Let_def)
      then show ?thesis
        using "1.IH"(1) [OF False refl refl refl True q1_sub "1.prems"(2)] by simp
    next
      case hc: False
      let ?ps = "parent_hashes ?c"
      let ?r = "visit_parents ?ps (a, ?q1)"
      have a': "set (fst ?r) = set a \<union> set ?ps" by (rule visit_parents_grow)
      have q': "set (snd ?r) = set ?q1 \<union> (set ?ps - set a)" by (rule visit_parents_queue)
      have sub: "set (snd ?r) \<subseteq> set (fst ?r)" unfolding a' q' using q1_sub by blast
      have reach_cur: "(parent_link e st)\<^sup>*\<^sup>* h ?cur"
        using "1.prems" cur_q by blast
      have "\<And>p. p \<in> set ?ps \<Longrightarrow> (parent_link e st)\<^sup>*\<^sup>* h p"
      proof -
        fix p assume "p \<in> set ?ps"
        then have "parent_link e st ?cur p" using hc by (simp add: parent_link_def)
        then show "(parent_link e st)\<^sup>*\<^sup>* h p" using reach_cur by (rule rtranclp.rtrancl_into_rtrancl [rotated])
      qed
      then have inv: "\<forall>c \<in> set (fst ?r). (parent_link e st)\<^sup>*\<^sup>* h c"
        unfolding a' using "1.prems"(2) by blast
      have eq: "getAncestors_loop e st q a = getAncestors_loop e st (snd ?r) (fst ?r)"
        using False hc by (subst getAncestors_loop.simps) (simp add: Let_def)
      show ?thesis
        using "1.IH"(2) [OF False refl refl refl hc sub inv] eq by simp
    qed
  qed
qed


text \<open>
  \<open>getAncestors\<close> returns \<open>h\<close> and exactly the names reachable from \<open>h\<close> along parent
  links.
\<close>

lemma getAncestors_exact:
  "h \<noteq> [] \<Longrightarrow>
   h \<in> set (getAncestors e st h)
   \<and> set (getAncestors e st h) = {c. (parent_link e st)\<^sup>*\<^sup>* h c}"
proof -
  assume h: "h \<noteq> []"
  let ?r = "getAncestors_loop e st [h] [h]"
  have r: "getAncestors e st h = ?r" using h by (simp add: getAncestors_def)
  have closed: "set [h] \<subseteq> set ?r \<and> (\<forall>c \<in> set ?r. \<forall>p. parent_link e st c p \<longrightarrow> p \<in> set ?r)"
    by (rule getAncestors_loop_closed) simp_all
  then have hin: "h \<in> set ?r" by simp
  have "\<And>c. (parent_link e st)\<^sup>*\<^sup>* h c \<Longrightarrow> c \<in> set ?r"
  proof -
    fix c assume "(parent_link e st)\<^sup>*\<^sup>* h c"
    then show "c \<in> set ?r"
    proof (induction rule: rtranclp_induct)
      case base
      then show ?case using hin by simp
    next
      case (step y z)
      then show ?case using closed by blast
    qed
  qed
  moreover have "\<forall>c \<in> set ?r. (parent_link e st)\<^sup>*\<^sup>* h c"
    by (rule getAncestors_loop_sound) simp_all
  ultimately have "set ?r = {c. (parent_link e st)\<^sup>*\<^sup>* h c}"
    by blast
  then show ?thesis using hin r by simp
qed

subsection \<open>The example repository of MiniGit-Project.cpp\<close>

lemma example_paths [simp]:
  "read_path example_repo ''refs/HEAD'' = Some (''ref: refs/heads/master'' @ [nl])"
  "read_path example_repo ''refs/heads/master'' = Some (commit_B @ [nl])"
  "read_path example_repo ''refs/heads/feat'' = Some (commit_C @ [nl])"
  "read_path example_repo ''refs/heads/nobody'' = None"
  by (simp_all add: read_path_def example_repo_def)

lemma example_commit_A:
  "read_commit_object e example_repo commit_A =
     \<lparr>hash = commit_A, message = ''base'', timestamp = ''2023-11-14 22:13:20'',
      parent_hash = [], parent_hashes = [], tracked_files = [(''z'', ''blobA'')]\<rparr>"
  by (simp add: read_commit_object_def read_path_def example_repo_def commit_A_def commit_B_def
      commit_C_def commit_D_def commit_text_def parse_commit_def getlines_def
      parse_commit_line_def starts_with_def)

lemma example_commit_B:
  "read_commit_object e example_repo commit_B =
     \<lparr>hash = commit_B, message = ''ours'', timestamp = ''2023-11-14 22:13:20'',
      parent_hash = commit_A, parent_hashes = [commit_A], tracked_files = [(''z'', ''blobB'')]\<rparr>"
  by (simp add: read_commit_object_def read_path_def example_repo_def commit_A_def commit_B_def
      commit_C_def commit_D_def commit_text_def parse_commit_def getlines_def
      parse_commit_line_def starts_with_def)


lemma example_names [simp]:
  "commit_A \<noteq> []" "commit_B \<noteq> []" "commit_C \<noteq> []"
  "commit_A \<noteq> commit_B" "commit_B \<noteq> commit_A" "commit_A \<noteq> commit_C" "commit_C \<noteq> commit_A"
  "commit_B \<noteq> commit_C" "commit_C \<noteq> commit_B"
  "length commit_A = 40" "length commit_B = 40" "length commit_C = 40"
  "nl \<notin> set commit_A" "nl \<notin> set commit_B" "nl \<notin> set commit_C"
  by (simp_all add: commit_A_def commit_B_def commit_C_def)

lemma takeWhile_line [simp]: "nl \<notin> set l \<Longrightarrow> takeWhile (\<lambda>c. c \<noteq> nl) (l @ nl # rest) = l"
  by (induction l) auto

lemma example_ancestors_B: "getAncestors e example_repo commit_B = [commit_B, commit_A]"
proof -
  have 1: "getAncestors_loop e example_repo [commit_B] [commit_B]
           = getAncestors_loop e example_repo [commit_A] [commit_B, commit_A]"
    by (subst getAncestors_loop.simps) (simp add: example_commit_B Let_def visit_parents_def)
  have 2: "getAncestors_loop e example_repo [commit_A] [commit_B, commit_A]
           = getAncestors_loop e example_repo [] [commit_B, commit_A]"
    by (subst getAncestors_loop.simps) (simp add: example_commit_A Let_def visit_parents_def)
  have 3: "getAncestors_loop e example_repo [] [commit_B, commit_A] = [commit_B, commit_A]"
    by (subst getAncestors_loop.simps) simp
  show ?thesis by (simp add: getAncestors_def 1 2 3)
qed



lemma example_blobs [simp]:
  "read_blob example_repo ''blobA'' = ''A''"
  "read_blob example_repo ''blobB'' = ''B''"
  "read_blob example_repo ''blobC'' = ''C''"
  "read_blob example_repo ''blobN'' = ''N''"
  "read_blob example_repo [] = []"
  by (simp_all add: read_blob_def read_path_def example_repo_def commit_A_def commit_B_def
      commit_C_def commit_D_def)



subsection \<open>serialize and deserialize\<close>

lemma getlines_from_line:
  "d \<notin> set l \<Longrightarrow> getlines_from d cur (l @ d # rest) = (cur @ l) # getlines_from d [] rest"
  by (induction l arbitrary: cur) auto

lemma getlines_lines:
  "list_all (\<lambda>l. nl \<notin> set l) ls \<Longrightarrow>
   getlines (concat (map (\<lambda>l. l @ [nl]) ls) @ rest) = ls @ getlines rest"
proof (induction ls)
  case Nil
  then show ?case by simp
next
  case (Cons l ls)
  then have "nl \<notin> set l" by simp
  then have "getlines_from nl [] (l @ nl # (concat (map (\<lambda>l. l @ [nl]) ls) @ rest))
        = ([] @ l) # getlines_from nl [] (concat (map (\<lambda>l. l @ [nl]) ls) @ rest)"
    by (rule getlines_from_line)
  then show ?case using Cons by (simp add: getlines_def)
qed

lemma concat_getlines_from:
  "concat (map (\<lambda>l. l @ [d]) (getlines_from d cur (m @ [d]))) = cur @ m @ [d]"
  by (induction m arbitrary: cur) simp_all

lemma is_word_not_space: "is_word w \<Longrightarrow> c \<in> set w \<Longrightarrow> \<not> isspace c"
  by (simp add: is_word_def list_all_iff)

lemma isspace_blank [simp]: "isspace (CHR '' '')"
  by (simp add: isspace_def)

lemma word_dropWhile: "is_word w \<Longrightarrow> dropWhile isspace (w @ rest) = w @ rest"
  by (cases w) (simp_all add: is_word_def)

lemma word_takeWhile:
  "is_word w \<Longrightarrow> takeWhile (\<lambda>c. \<not> isspace c) (w @ CHR '' '' # rest) = w"
  by (simp add: is_word_def list_all_iff takeWhile_append2)

lemma word_takeWhile_end: "is_word w \<Longrightarrow> takeWhile (\<lambda>c. \<not> isspace c) w = w"
  by (simp add: is_word_def list_all_iff)

lemma word_dropWhile_rest:
  "is_word w \<Longrightarrow> dropWhile (\<lambda>c. \<not> isspace c) (w @ CHR '' '' # rest) = CHR '' '' # rest"
  by (simp add: is_word_def list_all_iff dropWhile_append2)

lemma read_word_first:
  "is_word w \<Longrightarrow> read_word (w @ CHR '' '' # rest) = (w, CHR '' '' # rest)"
  by (simp add: read_word_def Let_def word_dropWhile word_takeWhile word_dropWhile_rest)

lemma read_word_middle:
  "is_word w \<Longrightarrow> read_word (CHR '' '' # w @ CHR '' '' # rest) = (w, CHR '' '' # rest)"
  by (simp add: read_word_def Let_def word_dropWhile word_takeWhile word_dropWhile_rest)

lemma read_word_last:
  "is_word w \<Longrightarrow> fst (read_word (CHR '' '' # w)) = w"
  using word_dropWhile [of w "[]"]
  by (simp add: read_word_def Let_def word_takeWhile_end)

lemma is_word_blob: "is_word ''blob''"
  by (simp add: is_word_def isspace_def)

lemma deserialize_blob_line:
  assumes "\<not> in_message ps" "is_word k" "is_word v"
  shows "deserialize_line (''blob '' @ v @ '' '' @ k) ps = ps\<lparr>files := map_set k v (files ps)\<rparr>"
proof -
  define line where "line = ''blob '' @ v @ '' '' @ k"
  have 1: "read_word line = (''blob'', CHR '' '' # v @ CHR '' '' # k)"
    using read_word_first [OF is_word_blob, of "v @ CHR '' '' # k"] by (simp add: line_def)
  have 2: "read_word (CHR '' '' # v @ CHR '' '' # k) = (v, CHR '' '' # k)"
    using assms(3) by (rule read_word_middle)
  have 3: "fst (read_word (CHR '' '' # k)) = k"
    using assms(2) by (rule read_word_last)
  have s: "starts_with ''blob '' line"
    by (simp add: starts_with_def line_def)
  have ne: "line \<noteq> []" by (simp add: line_def)
  have "deserialize_line line ps = ps\<lparr>files := map_set k v (files ps)\<rparr>"
    unfolding deserialize_line_def using assms(1) s ne by (simp add: Let_def 1 2 3)
  then show ?thesis by (simp only: line_def)
qed

lemma map_set_append:
  "sorted_wrt (<) (map fst (m @ [(k, v)])) \<Longrightarrow> map_set k v m = m @ [(k, v)]"
proof (induction m)
  case Nil
  then show ?case by simp
next
  case (Cons a m)
  obtain k' v' where a: "a = (k', v')" by (cases a)
  from Cons.prems a have lt: "k' < k" by (auto simp add: sorted_wrt_append)
  from Cons.prems have "sorted_wrt (<) (map fst (m @ [(k, v)]))" by simp
  then have "map_set k v m = m @ [(k, v)]" by (rule Cons.IH)
  then show ?case using lt a by (auto simp add: not_less_iff_gr_or_eq)
qed

lemma fold_map_set:
  "sorted_wrt (<) (map fst (acc @ xs)) \<Longrightarrow>
   fold (\<lambda>entry. map_set (fst entry) (snd entry)) xs acc = acc @ xs"
proof (induction xs arbitrary: acc)
  case Nil
  then show ?case by simp
next
  case (Cons x xs)
  obtain k v where x: "x = (k, v)" by (cases x)
  have s1: "sorted_wrt (<) (map fst (acc @ [(k, v)]))"
    using Cons.prems x by (simp add: sorted_wrt_append)
  have s2: "sorted_wrt (<) (map fst ((acc @ [(k, v)]) @ xs))"
    using Cons.prems x by simp
  show ?case
    using Cons.IH [OF s2] map_set_append [OF s1] x by simp
qed

lemma deserialize_blob_lines:
  "\<not> in_message ps \<Longrightarrow>
   list_all (\<lambda>entry. is_word (fst entry) \<and> is_word (snd entry)) entries \<Longrightarrow>
   fold deserialize_line
     (map (\<lambda>entry. ''blob '' @ snd entry @ '' '' @ fst entry) entries) ps
   = ps\<lparr>files := fold (\<lambda>entry. map_set (fst entry) (snd entry)) entries (files ps)\<rparr>"
proof (induction entries arbitrary: ps)
  case Nil
  then show ?case by simp
next
  case (Cons x xs)
  have step: "deserialize_line (''blob '' @ snd x @ '' '' @ fst x) ps
               = ps\<lparr>files := map_set (fst x) (snd x) (files ps)\<rparr>"
    using Cons.prems by (intro deserialize_blob_line) simp_all
  have nm: "\<not> in_message (ps\<lparr>files := map_set (fst x) (snd x) (files ps)\<rparr>)"
    using Cons.prems(1) by simp
  have rest: "list_all (\<lambda>entry. is_word (fst entry) \<and> is_word (snd entry)) xs"
    using Cons.prems(2) by simp
  show ?case
    using Cons.IH [OF nm rest] step by simp
qed

lemma deserialize_parent_line:
  "\<not> in_message ps \<Longrightarrow>
   deserialize_line (''parent '' @ p) ps = ps\<lparr>parents := parents ps @ [p]\<rparr>"
  by (simp add: deserialize_line_def starts_with_def)

lemma deserialize_parent_lines:
  "\<not> in_message ps \<Longrightarrow>
   fold deserialize_line (map (\<lambda>p. ''parent '' @ p) qs) ps = ps\<lparr>parents := parents ps @ qs\<rparr>"
proof (induction qs arbitrary: ps)
  case Nil
  then show ?case by simp
next
  case (Cons q qs)
  have nm: "\<not> in_message (ps\<lparr>parents := parents ps @ [q]\<rparr>)" using Cons.prems by simp
  show ?case
    using Cons.IH [OF nm] deserialize_parent_line [OF Cons.prems, of q] by simp
qed

lemma deserialize_tree_line:
  "\<not> in_message ps \<Longrightarrow> deserialize_line ''tree'' ps = ps"
  by (simp add: deserialize_line_def starts_with_def)

lemma deserialize_author_line:
  "\<not> in_message ps \<Longrightarrow> length ts = 19 \<Longrightarrow>
   deserialize_line (''author MiniGit <minigit@example.com> '' @ ts) ps
     = ps\<lparr>loaded_timestamp := ts\<rparr>"
  by (simp add: deserialize_line_def starts_with_def)

lemma deserialize_committer_line:
  "\<not> in_message ps \<Longrightarrow>
   deserialize_line (''committer MiniGit <minigit@example.com> '' @ ts) ps = ps"
  by (simp add: deserialize_line_def starts_with_def)

lemma deserialize_blank_line:
  "\<not> in_message ps \<Longrightarrow> deserialize_line [] ps = ps\<lparr>in_message := True\<rparr>"
  by (simp add: deserialize_line_def)

lemma deserialize_message_lines:
  "in_message ps \<Longrightarrow>
   fold deserialize_line ls ps = ps\<lparr>msg := msg ps @ concat (map (\<lambda>l. l @ [nl]) ls)\<rparr>"
proof (induction ls arbitrary: ps)
  case Nil
  then show ?case by simp
next
  case (Cons l ls)
  have step: "deserialize_line l ps = ps\<lparr>msg := msg ps @ l @ [nl]\<rparr>"
    using Cons.prems by (simp add: deserialize_line_def)
  have im: "in_message (ps\<lparr>msg := msg ps @ l @ [nl]\<rparr>)" using Cons.prems by simp
  show ?case using Cons.IH [OF im] step by simp
qed


lemma word_no_nl: "is_word w \<Longrightarrow> nl \<notin> set w"
  by (auto simp add: is_word_def list_all_iff isspace_def)

lemma serialize_lines:
  assumes "well_formed_commit c"
  shows "getlines (serialize c) =
           [''tree'']
           @ map (\<lambda>entry. ''blob '' @ snd entry @ '' '' @ fst entry) (tracked_files_p2 c)
           @ map (\<lambda>p. ''parent '' @ p) (parent_hashes_p2 c)
           @ [''author MiniGit <minigit@example.com> '' @ timestamp_p2 c,
              ''committer MiniGit <minigit@example.com> '' @ timestamp_p2 c, []]
           @ getlines_from nl [] (message_p2 c @ [nl])"
proof -
  let ?hdr = "''tree'' # map (\<lambda>entry. ''blob '' @ snd entry @ '' '' @ fst entry) (tracked_files_p2 c)
            @ map (\<lambda>p. ''parent '' @ p) (parent_hashes_p2 c)
            @ [''author MiniGit <minigit@example.com> '' @ timestamp_p2 c,
               ''committer MiniGit <minigit@example.com> '' @ timestamp_p2 c]"
  have blobs: "list_all (\<lambda>l. nl \<notin> set l)
                 (map (\<lambda>entry. ''blob '' @ snd entry @ '' '' @ fst entry) (tracked_files_p2 c))"
    using assms by (auto simp add: well_formed_commit_def list_all_iff dest: word_no_nl)
  have pars: "list_all (\<lambda>l. nl \<notin> set l) (map (\<lambda>p. ''parent '' @ p) (parent_hashes_p2 c))"
    using assms by (auto simp add: well_formed_commit_def list_all_iff)
  have ts: "nl \<notin> set (timestamp_p2 c)"
    using assms by (simp add: well_formed_commit_def)
  have hdr: "list_all (\<lambda>l. nl \<notin> set l) ?hdr"
    using blobs pars ts by simp
  have text_eq: "serialize c = concat (map (\<lambda>l. l @ [nl]) ?hdr) @ ([nl] @ message_p2 c @ [nl])"
    by (simp add: serialize_def comp_def)
  have "getlines (serialize c) = ?hdr @ getlines ([nl] @ message_p2 c @ [nl])"
    unfolding text_eq using hdr by (rule getlines_lines)
  also have "getlines ([nl] @ message_p2 c @ [nl]) = [] # getlines_from nl [] (message_p2 c @ [nl])"
    by (simp add: getlines_def)
  finally show ?thesis by (simp only: append_Cons append_Nil append_assoc)
qed


lemma deserialize_serialize_p2:
  assumes "well_formed_commit c"
  shows "deserialize e h (serialize c) = c\<lparr>hash_p2 := h\<rparr>"
proof -
  let ?ps0 = "\<lparr>msg = [], parents = [], files = [], loaded_timestamp = [], in_message = False\<rparr>"
  let ?fs = "tracked_files_p2 c"
  let ?ps2 = "\<lparr>msg = [], parents = [], files = ?fs, loaded_timestamp = [], in_message = False\<rparr>"
  let ?ps3 = "\<lparr>msg = [], parents = parent_hashes_p2 c, files = ?fs, loaded_timestamp = [],
               in_message = False\<rparr>"
  let ?ps4 = "\<lparr>msg = [], parents = parent_hashes_p2 c, files = ?fs,
               loaded_timestamp = timestamp_p2 c, in_message = False\<rparr>"
  let ?ps5 = "\<lparr>msg = [], parents = parent_hashes_p2 c, files = ?fs,
               loaded_timestamp = timestamp_p2 c, in_message = True\<rparr>"
  let ?ps6 = "\<lparr>msg = message_p2 c @ [nl], parents = parent_hashes_p2 c, files = ?fs,
               loaded_timestamp = timestamp_p2 c, in_message = True\<rparr>"
  have words: "list_all (\<lambda>entry. is_word (fst entry) \<and> is_word (snd entry)) ?fs"
    and sorted: "sorted_wrt (<) (map fst ([] @ ?fs))"
    and len: "length (timestamp_p2 c) = 19"
    using assms by (simp_all add: well_formed_commit_def)
  have files_eq: "fold (\<lambda>entry. map_set (fst entry) (snd entry)) ?fs [] = ?fs"
    using fold_map_set [OF sorted] by simp
  have s1: "fold deserialize_line [''tree''] ?ps0 = ?ps0"
    by (simp add: deserialize_tree_line)
  have s2: "fold deserialize_line
              (map (\<lambda>entry. ''blob '' @ snd entry @ '' '' @ fst entry) ?fs) ?ps0 = ?ps2"
    using deserialize_blob_lines [OF _ words, of ?ps0] files_eq by simp
  have s3: "fold deserialize_line (map (\<lambda>p. ''parent '' @ p) (parent_hashes_p2 c)) ?ps2 = ?ps3"
    using deserialize_parent_lines [of ?ps2 "parent_hashes_p2 c"] by simp
  define A where "A = ''author MiniGit <minigit@example.com> '' @ timestamp_p2 c"
  define C where "C = ''committer MiniGit <minigit@example.com> '' @ timestamp_p2 c"
  have a: "deserialize_line A ?ps3 = ?ps4"
    unfolding A_def using deserialize_author_line [of ?ps3 "timestamp_p2 c"] len by simp
  have b: "deserialize_line C ?ps4 = ?ps4"
    unfolding C_def using deserialize_committer_line [of ?ps4 "timestamp_p2 c"] by simp
  have d: "deserialize_line [] ?ps4 = ?ps5"
    using deserialize_blank_line [of ?ps4] by simp
  have "fold deserialize_line [A, C, []] ?ps3 = ?ps5"
    by (simp add: a b d)
  then have s4: "fold deserialize_line
              [''author MiniGit <minigit@example.com> '' @ timestamp_p2 c,
               ''committer MiniGit <minigit@example.com> '' @ timestamp_p2 c, []] ?ps3 = ?ps5"
    by (simp only: A_def C_def)
  have s5: "fold deserialize_line (getlines_from nl [] (message_p2 c @ [nl])) ?ps5 = ?ps6"
    by (simp add: deserialize_message_lines concat_getlines_from)
  have parsed: "fold deserialize_line (getlines (serialize c)) ?ps0 = ?ps6"
    unfolding serialize_lines [OF assms]
    by (simp only: fold_append comp_apply s1 s2 s3 s4 s5)
  have ts: "timestamp_p2 c \<noteq> []" using len by auto
  show ?thesis
    unfolding deserialize_def parsed
    using ts by (simp add: Let_def new_CommitNode_p2_def)
qed

text \<open>The same round trip through \<open>serialize\<close> and \<open>deserialize\<close> of Branching.cpp.\<close>

lemma deserialize_b_blob_line:
  assumes "\<not> in_message_block ps" "is_word k" "is_word v"
  shows "deserialize_line_b (''blob '' @ v @ '' '' @ k) ps = ps\<lparr>files_b := map_set k v (files_b ps)\<rparr>"
proof -
  define line where "line = ''blob '' @ v @ '' '' @ k"
  have 1: "read_word line = (''blob'', CHR '' '' # v @ CHR '' '' # k)"
    using read_word_first [OF is_word_blob, of "v @ CHR '' '' # k"] by (simp add: line_def)
  have 2: "read_word (CHR '' '' # v @ CHR '' '' # k) = (v, CHR '' '' # k)"
    using assms(3) by (rule read_word_middle)
  have 3: "fst (read_word (CHR '' '' # k)) = k"
    using assms(2) by (rule read_word_last)
  have s: "starts_with ''blob '' line"
    by (simp add: starts_with_def line_def)
  have ne: "line \<noteq> []" by (simp add: line_def)
  have "deserialize_line_b line ps = ps\<lparr>files_b := map_set k v (files_b ps)\<rparr>"
    unfolding deserialize_line_b_def using assms(1) s ne by (simp add: Let_def 1 2 3)
  then show ?thesis by (simp only: line_def)
qed

lemma deserialize_b_blob_lines:
  "\<not> in_message_block ps \<Longrightarrow>
   list_all (\<lambda>entry. is_word (fst entry) \<and> is_word (snd entry)) entries \<Longrightarrow>
   fold deserialize_line_b
     (map (\<lambda>entry. ''blob '' @ snd entry @ '' '' @ fst entry) entries) ps
   = ps\<lparr>files_b := fold (\<lambda>entry. map_set (fst entry) (snd entry)) entries (files_b ps)\<rparr>"
proof (induction entries arbitrary: ps)
  case Nil
  then show ?case by simp
next
  case (Cons x xs)
  have step: "deserialize_line_b (''blob '' @ snd x @ '' '' @ fst x) ps
               = ps\<lparr>files_b := map_set (fst x) (snd x) (files_b ps)\<rparr>"
    using Cons.prems by (intro deserialize_b_blob_line) simp_all
  have nm: "\<not> in_message_block (ps\<lparr>files_b := map_set (fst x) (snd x) (files_b ps)\<rparr>)"
    using Cons.prems(1) by simp
  have rest: "list_all (\<lambda>entry. is_word (fst entry) \<and> is_word (snd entry)) xs"
    using Cons.prems(2) by simp
  show ?case
    using Cons.IH [OF nm rest] step by simp
qed

lemma rfind_char_at:
  assumes "pos < length s" and "s ! pos = c"
  shows "rfind_char c s pos = Some pos"
proof -
  have m: "min (Suc pos) (length s) = Suc pos" using assms(1) by simp
  have f: "filter (\<lambda>i. s ! i = c) [0..<Suc pos] = filter (\<lambda>i. s ! i = c) [0..<pos] @ [pos]"
    using assms(2) by simp
  show ?thesis
    unfolding rfind_char_def m f
    by (cases "filter (\<lambda>i. s ! i = c) [0..<pos]") simp_all
qed

lemma deserialize_b_author_line:
  assumes "\<not> in_message_block ps" and "length ts = 19"
  shows "deserialize_line_b (''author Your Name <your.email@example.com> '' @ ts) ps
           = ps\<lparr>loaded_timestamp_b := ts\<rparr>"
proof -
  define pre where "pre = ''author Your Name <your.email@example.com> ''"
  define line where "line = pre @ ts"
  have lp: "length pre = 42" by (simp add: pre_def)
  have len: "length line = 61" by (simp add: line_def lp assms(2))
  have sp: "line ! 41 = CHR '' ''" by (simp add: line_def pre_def nth_append)
  have r: "rfind_char (CHR '' '') line 41 = Some 41"
    by (rule rfind_char_at) (simp_all add: len sp)
  have st: "starts_with ''author '' line" "\<not> starts_with ''blob '' line"
    "\<not> starts_with ''parent '' line" "line \<noteq> []"
    by (simp_all add: starts_with_def line_def pre_def)
  have tk: "take 19 (drop 42 line) = ts"
    by (simp add: line_def lp assms(2))
  have "deserialize_line_b line ps = ps\<lparr>loaded_timestamp_b := ts\<rparr>"
    unfolding deserialize_line_b_def using assms(1) st by (simp add: len r tk)
  then show ?thesis by (simp only: line_def pre_def)
qed

lemma deserialize_b_other_lines:
  "\<not> in_message_block ps \<Longrightarrow> deserialize_line_b ''tree'' ps = ps"
  "\<not> in_message_block ps \<Longrightarrow>
   deserialize_line_b (''committer Your Name <your.email@example.com> '' @ ts) ps = ps"
  "\<not> in_message_block ps \<Longrightarrow> deserialize_line_b (''parent '' @ p) ps = ps\<lparr>parent_b := p\<rparr>"
  "\<not> in_message_block ps \<Longrightarrow> deserialize_line_b [] ps = ps\<lparr>in_message_block := True\<rparr>"
  by (simp_all add: deserialize_line_b_def starts_with_def)

lemma deserialize_b_message_lines:
  "in_message_block ps \<Longrightarrow>
   fold deserialize_line_b ls ps = ps\<lparr>msg_b := msg_b ps @ concat (map (\<lambda>l. l @ [nl]) ls)\<rparr>"
proof (induction ls arbitrary: ps)
  case Nil
  then show ?case by simp
next
  case (Cons l ls)
  have step: "deserialize_line_b l ps = ps\<lparr>msg_b := msg_b ps @ l @ [nl]\<rparr>"
    using Cons.prems by (simp add: deserialize_line_b_def)
  have im: "in_message_block (ps\<lparr>msg_b := msg_b ps @ l @ [nl]\<rparr>)" using Cons.prems by simp
  show ?case using Cons.IH [OF im] step by simp
qed

lemma serialize_b_lines:
  assumes "well_formed_commit_b c"
  shows "getlines (serialize_b c) =
           [''tree'']
           @ map (\<lambda>entry. ''blob '' @ snd entry @ '' '' @ fst entry) (tracked_files c)
           @ [''parent '' @ parent_hash c,
              ''author Your Name <your.email@example.com> '' @ timestamp c,
              ''committer Your Name <your.email@example.com> '' @ timestamp c, []]
           @ getlines_from nl [] (message c @ [nl])"
proof -
  let ?hdr = "''tree'' # map (\<lambda>entry. ''blob '' @ snd entry @ '' '' @ fst entry) (tracked_files c)
            @ [''parent '' @ parent_hash c,
               ''author Your Name <your.email@example.com> '' @ timestamp c,
               ''committer Your Name <your.email@example.com> '' @ timestamp c]"
  have blobs: "list_all (\<lambda>l. nl \<notin> set l)
                 (map (\<lambda>entry. ''blob '' @ snd entry @ '' '' @ fst entry) (tracked_files c))"
    using assms by (auto simp add: well_formed_commit_b_def list_all_iff dest: word_no_nl)
  have ts: "nl \<notin> set (timestamp c)" and pa: "nl \<notin> set (parent_hash c)"
    using assms by (simp_all add: well_formed_commit_b_def)
  have hdr: "list_all (\<lambda>l. nl \<notin> set l) ?hdr"
    using blobs ts pa by simp
  have text_eq: "serialize_b c = concat (map (\<lambda>l. l @ [nl]) ?hdr) @ ([nl] @ message c @ [nl])"
    by (simp add: serialize_b_def comp_def)
  have "getlines (serialize_b c) = ?hdr @ getlines ([nl] @ message c @ [nl])"
    unfolding text_eq using hdr by (rule getlines_lines)
  also have "getlines ([nl] @ message c @ [nl]) = [] # getlines_from nl [] (message c @ [nl])"
    by (simp add: getlines_def)
  finally show ?thesis by (simp only: append_Cons append_Nil append_assoc)
qed

lemma serialize_b_deserialize_b:
  assumes "well_formed_commit_b c"
  shows "deserialize_b e h (serialize_b c) = c\<lparr>hash := h\<rparr>"
proof -
  let ?fs = "tracked_files c"
  let ?ps0 = "\<lparr>msg_b = [], parent_b = [], files_b = [], loaded_timestamp_b = [],
               in_message_block = False\<rparr>"
  let ?ps2 = "\<lparr>msg_b = [], parent_b = [], files_b = ?fs, loaded_timestamp_b = [],
               in_message_block = False\<rparr>"
  let ?ps3 = "\<lparr>msg_b = [], parent_b = parent_hash c, files_b = ?fs, loaded_timestamp_b = [],
               in_message_block = False\<rparr>"
  let ?ps4 = "\<lparr>msg_b = [], parent_b = parent_hash c, files_b = ?fs,
               loaded_timestamp_b = timestamp c, in_message_block = False\<rparr>"
  let ?ps5 = "\<lparr>msg_b = [], parent_b = parent_hash c, files_b = ?fs,
               loaded_timestamp_b = timestamp c, in_message_block = True\<rparr>"
  let ?ps6 = "\<lparr>msg_b = message c @ [nl], parent_b = parent_hash c, files_b = ?fs,
               loaded_timestamp_b = timestamp c, in_message_block = True\<rparr>"
  have words: "list_all (\<lambda>entry. is_word (fst entry) \<and> is_word (snd entry)) ?fs"
    and sorted: "sorted_wrt (<) (map fst ([] @ ?fs))"
    and len: "length (timestamp c) = 19"
    and nop: "parent_hashes c = []"
    using assms by (simp_all add: well_formed_commit_b_def)
  have files_eq: "fold (\<lambda>entry. map_set (fst entry) (snd entry)) ?fs [] = ?fs"
    using fold_map_set [OF sorted] by simp
  have s1: "fold deserialize_line_b [''tree''] ?ps0 = ?ps0"
    by (simp add: deserialize_b_other_lines)
  have s2: "fold deserialize_line_b
              (map (\<lambda>entry. ''blob '' @ snd entry @ '' '' @ fst entry) ?fs) ?ps0 = ?ps2"
    using deserialize_b_blob_lines [OF _ words, of ?ps0] files_eq by simp
  define P where "P = ''parent '' @ parent_hash c"
  define A where "A = ''author Your Name <your.email@example.com> '' @ timestamp c"
  define C where "C = ''committer Your Name <your.email@example.com> '' @ timestamp c"
  have p: "deserialize_line_b P ?ps2 = ?ps3"
    unfolding P_def using deserialize_b_other_lines(3) [of ?ps2 "parent_hash c"] by simp
  have a: "deserialize_line_b A ?ps3 = ?ps4"
    unfolding A_def using deserialize_b_author_line [of ?ps3 "timestamp c"] len by simp
  have b: "deserialize_line_b C ?ps4 = ?ps4"
    unfolding C_def using deserialize_b_other_lines(2) [of ?ps4 "timestamp c"] by simp
  have d: "deserialize_line_b [] ?ps4 = ?ps5"
    using deserialize_b_other_lines(4) [of ?ps4] by simp
  have "fold deserialize_line_b [P, A, C, []] ?ps2 = ?ps5"
    by (simp add: p a b d)
  then have s4: "fold deserialize_line_b
              [''parent '' @ parent_hash c,
               ''author Your Name <your.email@example.com> '' @ timestamp c,
               ''committer Your Name <your.email@example.com> '' @ timestamp c, []] ?ps2 = ?ps5"
    by (simp only: P_def A_def C_def)
  have s5: "fold deserialize_line_b (getlines_from nl [] (message c @ [nl])) ?ps5 = ?ps6"
    by (simp add: deserialize_b_message_lines concat_getlines_from)
  have parsed: "fold deserialize_line_b (getlines (serialize_b c)) ?ps0 = ?ps6"
    unfolding serialize_b_lines [OF assms]
    by (simp only: fold_append comp_apply s1 s2 s4 s5)
  have ts: "timestamp c \<noteq> []" using len by auto
  show ?thesis
    unfolding deserialize_b_def parsed
    using ts nop by (simp add: Let_def new_CommitNode_b_def)
qed

lemma example_commit_p2_well_formed: "well_formed_commit example_commit_p2"
  by (simp add: well_formed_commit_def example_commit_p2_def is_word_def isspace_def)

lemma example_commit_b_well_formed: "well_formed_commit_b example_commit_b"
  by (simp add: well_formed_commit_b_def example_commit_b_def is_word_def isspace_def)


text \<open>
  C3. For every commit record of the data model, deserializing its serialization under
  a name gives back the record with exactly its message, timestamp, parents and
  tree map (and that name as its hash), whatever the message is: several lines and blank
  lines included. This holds for \<open>serialize\<close> and \<open>deserialize\<close> of part_002 (a list of
  parents) and for those of Branching.cpp (one parent).
\<close>

theorem serialize_deserialize_roundtrip:
  "(well_formed_commit c \<longrightarrow> deserialize e h (serialize c) = c\<lparr>hash_p2 := h\<rparr>)
   \<and> (well_formed_commit_b d \<longrightarrow> deserialize_b e g (serialize_b d) = d\<lparr>hash := g\<rparr>)"
  using deserialize_serialize_p2 [of c e h] serialize_b_deserialize_b [of d e g] by blast

theorem serialize_deserialize_roundtrip_witness:
  "well_formed_commit example_commit_p2
   \<and> deserialize example_env ''00000000000000aa'' (serialize example_commit_p2)
       = example_commit_p2
   \<and> well_formed_commit_b example_commit_b
   \<and> deserialize_b example_env ''000000000000000000000000000000bb''
         (serialize_b example_commit_b)
       = example_commit_b"
  using serialize_deserialize_roundtrip [of example_commit_p2 example_env
      "''00000000000000aa''" example_commit_b "''000000000000000000000000000000bb''"]
    example_commit_p2_well_formed example_commit_b_well_formed
  by (simp add: example_commit_p2_def example_commit_b_def)

subsection \<open>checkout\<close>






subsection \<open>commit\<close>

text \<open>
  C7. With an empty index \<open>commit\<close> reports that there is nothing to commit and returns
  the state it was given: no commit object, no reference, no index file and no staged
  entry changes. This holds for MiniGit-Project.cpp and for the variant of part_002.
\<close>

theorem commit_empty_index:
  "staging_area st = [] \<Longrightarrow>
   commit e m st = (Nothing_to_commit, st) \<and> commit_p2 e m st = (Nothing_to_commit, st)"
  by (simp add: commit_def commit_p2_def)

theorem commit_empty_index_witness:
  "staging_area example_repo = []
   \<and> commit example_env ''first'' example_repo = (Nothing_to_commit, example_repo)
   \<and> commit_p2 example_env ''first'' example_repo = (Nothing_to_commit, example_repo)"
proof -
  have s: "staging_area example_repo = []" by (simp add: example_repo_def)
  show ?thesis using commit_empty_index [OF s, of example_env "''first''"] s by simp
qed

subsection \<open>merge in MiniGit-Project.cpp\<close>







lemma map_at_Some: "map_of m k = Some v \<Longrightarrow> map_at m k = v"
  by (simp add: map_at_def)








lemma merge_already_up_to_date:
  "read_path st (''refs/heads/'' @ b) = Some branch_file \<Longrightarrow>
   current_head_hash st = getline_first branch_file \<Longrightarrow>
   merge e b st = (Already_up_to_date, st)"
  by (simp add: merge_def)

lemma merge_already_up_to_date_witness:
  "read_path example_repo (''refs/heads/'' @ ''master'') = Some (commit_B @ [nl])
   \<and> current_head_hash example_repo = getline_first (commit_B @ [nl])
   \<and> merge example_env ''master'' example_repo = (Already_up_to_date, example_repo)"
proof -
  have b: "read_path example_repo (''refs/heads/'' @ ''master'') = Some (commit_B @ [nl])"
    by (simp add: read_path_def example_repo_def)
  have cur: "current_head_hash example_repo = getline_first (commit_B @ [nl])"
    by (simp add: current_head_hash_def get_head_commit_hash_def starts_with_def
        getline_first_def commit_B_def)
  show ?thesis using merge_already_up_to_date [OF b cur, of example_env] b cur by blast
qed










subsection \<open>Fingerprints and blob storage\<close>

text \<open>
  In MiniGit-Project.cpp the fingerprint is the digest of the content and nothing else,
  and \<open>save_blob\<close> writes an object only if none of that name exists: storing the same
  content again, at any later time, returns the same fingerprint and changes nothing.
\<close>

lemma computeSHA1_ignores_clock:
  "computeSHA1 (e\<lparr>clock := t, hasher := g, put_time := p, uset_order := u\<rparr>) content
     = computeSHA1 e content"
  by (simp add: computeSHA1_def)

lemma save_blob_idempotent:
  "save_blob (e\<lparr>clock := t\<rparr>) content (snd (save_blob e content st))
     = (fst (save_blob e content st), snd (save_blob e content st))
   \<and> fst (save_blob e content st) = computeSHA1 e content
   \<and> read_path (snd (save_blob e content st)) (''objects/'' @ computeSHA1 e content) \<noteq> None"
  by (simp add: save_blob_def Let_def read_write_path computeSHA1_def)

lemma fnv1a_hello: "fnv1a ''hello'' = 11831194018420276491"
  by (simp add: fnv1a_def)

lemma replicate_two: "replicate 2 x = [x, x]"
  by (simp add: numeral_2_eq_2)

lemma data_hello_now:
  "''hello'' @ to_string_int 1700000000 @ to_string_size_t (fnv1a ''hello'') = ''hello170000000011831194018420276491''"
  by (simp add: fnv1a_hello to_string_int_def to_string_size_t_def hex_digit_def)

lemma data_hello_later:
  "''hello'' @ to_string_int 1700000001 @ to_string_size_t (fnv1a ''hello'') = ''hello170000000111831194018420276491''"
  by (simp add: fnv1a_hello to_string_int_def to_string_size_t_def hex_digit_def)

lemma fnv1a_data_hello_now: "fnv1a ''hello170000000011831194018420276491'' = 16860128918433785"
  by (simp add: fnv1a_def)

lemma fnv1a_data_hello_later: "fnv1a ''hello170000000111831194018420276491'' = 8752733840324013162"
  by (simp add: fnv1a_def)

lemma hex_now: "hex_setw16 16860128918433785 = ''003be632ab0ceff9''"
  by (simp add: hex_setw16_def hex_digit_def replicate_two)

lemma hex_later: "hex_setw16 8752733840324013162 = ''7977f50dc60dac6a''"
  by (simp add: hex_setw16_def hex_digit_def)

lemma hash_hello_now: "generate_simple_hash example_env ''hello'' = ''003be632ab0ceff9''"
  unfolding generate_simple_hash_def Let_def
  by (simp only: example_env_def env.simps data_hello_now fnv1a_data_hello_now hex_now)

lemma hash_hello_later: "generate_simple_hash later_env ''hello'' = ''7977f50dc60dac6a''"
  unfolding generate_simple_hash_def Let_def
  by (simp only: later_env_def example_env_def env.simps data_hello_later
      fnv1a_data_hello_later hex_later)

text \<open>
  C1 fails for \<open>generate_simple_hash\<close>: the seconds of the wall clock are hashed
  with the content, so the same content fingerprinted one second later gets another
  fingerprint.
\<close>

theorem generate_simple_hash_depends_on_clock:
  "clock later_env = clock example_env + 1
   \<and> hasher later_env = hasher example_env
   \<and> generate_simple_hash example_env ''hello'' = ''003be632ab0ceff9''
   \<and> generate_simple_hash later_env ''hello'' = ''7977f50dc60dac6a''"
proof -
  have "clock later_env = clock example_env + 1" and "hasher later_env = hasher example_env"
    by (simp_all add: later_env_def example_env_def)
  then show ?thesis using hash_hello_now hash_hello_later by blast
qed

text \<open>
  C4 fails for \<open>save_blob\<close> of the variant of part_002, by the same defect: storing the
  same content twice, one second apart, returns two fingerprints and leaves two objects.
\<close>

theorem save_blob_twice_p2:
  "save_blob_p2 example_env ''hello'' empty_repo
     = (''003be632ab0ceff9'',
        empty_repo\<lparr>minigit := [(''objects/003be632ab0ceff9'', ''hello'')]\<rparr>)
   \<and> save_blob_p2 later_env ''hello'' (snd (save_blob_p2 example_env ''hello'' empty_repo))
     = (''7977f50dc60dac6a'',
        empty_repo\<lparr>minigit := [(''objects/003be632ab0ceff9'', ''hello''),
                                (''objects/7977f50dc60dac6a'', ''hello'')]\<rparr>)"
  by (simp add: save_blob_p2_def Let_def hash_hello_now hash_hello_later write_path_def
      empty_repo_def)

subsection \<open>merge in the variant of part_002\<close>

lemma serialize_example_merge_commit: "serialize example_merge_commit = merge_commit_text"
  by (simp add: serialize_def example_merge_commit_def merge_commit_text_def)

lemma fnv1a_merge_commit_text: "fnv1a merge_commit_text = 3416548989485158228"
  unfolding merge_commit_text_def by code_simp

lemma digits_merge: "to_string_size_t 3416548989485158228 = ''3416548989485158228''"
  by (simp add: to_string_size_t_def hex_digit_def)

lemma time_digits: "to_string_int 1700000000 = ''1700000000''"
  by (simp add: to_string_int_def hex_digit_def)

lemma fnv1a_merge_data:
  "fnv1a (merge_commit_text @ ''1700000000'' @ ''3416548989485158228'') = 1238818467442508346"
  unfolding merge_commit_text_def by code_simp

lemma hex_merge: "hex_setw16 1238818467442508346 = ''11312ad5251ac23a''"
  by (simp add: hex_setw16_def hex_digit_def)

lemma hash_example_merge_commit:
  "generate_simple_hash example_env (serialize example_merge_commit) = ''11312ad5251ac23a''"
  unfolding generate_simple_hash_def Let_def serialize_example_merge_commit
  by (simp only: example_env_def env.simps fnv1a_merge_commit_text digits_merge time_digits
      fnv1a_merge_data hex_merge)

lemma example_p2_paths:
  "read_path example_repo_p2 ''HEAD'' = Some (''ref: refs/heads/main'' @ [nl])"
  "read_path example_repo_p2 (''refs/heads/'' @ ''main'') = Some (''00000000000000c0'' @ [nl])"
  "read_path example_repo_p2 ''refs/heads/main'' = Some (''00000000000000c0'' @ [nl])"
  "read_path example_repo_p2 (''objects/'' @ ''11312ad5251ac23a'') = None"
  by (simp_all add: read_path_def example_repo_p2_def)

lemma example_p2_head: "get_head_hash example_repo_p2 = ''00000000000000c0''"
  by (simp add: get_head_hash_def example_p2_paths getline_first_def starts_with_def)

lemma example_p2_commit:
  "read_commit example_env example_repo_p2 ''00000000000000c0'' =
     \<lparr>hash_p2 = ''00000000000000c0'', message_p2 = ''first'',
      timestamp_p2 = ''2023-11-14 22:13:20'', parent_hashes_p2 = [],
      tracked_files_p2 = [(''a.txt'', ''00000000000000b1'')]\<rparr>"
  by (simp add: read_commit_def read_path_def example_repo_p2_def serialize_def
      deserialize_def getlines_def deserialize_line_def starts_with_def read_word_def
      isspace_def new_CommitNode_p2_def example_env_def Let_def)

lemma example_p2_lca:
  "find_lca example_env example_repo_p2 ''00000000000000c0'' ''00000000000000c0''
     = Some ''00000000000000c0''"
proof -
  have v1: "lca_visit example_env example_repo_p2 [''00000000000000c0''] []
              = lca_visit example_env example_repo_p2 [] [''00000000000000c0'']"
    by (subst lca_visit.simps) (simp add: example_p2_commit Let_def)
  have v2: "lca_visit example_env example_repo_p2 [] [''00000000000000c0'']
              = Some [''00000000000000c0'']"
    by (subst lca_visit.simps) simp
  have s: "lca_search example_env example_repo_p2 [''00000000000000c0''] [''00000000000000c0'']
              = Some ''00000000000000c0''"
    by (subst lca_search.simps) simp
  show ?thesis by (simp add: find_lca_def v1 v2 s)
qed

lemma example_p2_merge_maps:
  "merge_file_maps example_env [(''a.txt'', ''00000000000000b1'')]
     [(''a.txt'', ''00000000000000b1'')] [(''a.txt'', ''00000000000000b1'')] example_repo_p2
   = \<lparr>merged = [(''a.txt'', ''00000000000000b1'')], has_conflict = False,
      disk_p2 = example_repo_p2\<rparr>"
  by (simp add: merge_file_maps_def merge_one_file_def map_at_def example_env_def Let_def)

text \<open>
  C8 fails for \<open>merge\<close> of the variant of part_002, which does not compare the two
  commits: merging \<open>main\<close> into itself while \<open>HEAD\<close> is on \<open>main\<close> finds the commit as
  its own ancestor, writes a merge commit with that commit twice as parent and moves
  \<open>main\<close> to it.
\<close>

theorem merge_into_itself_p2:
  "merge_p2 example_env ''main'' example_repo_p2 =
     Some (Merge_commit_created False ''11312ad5251ac23a'',
           example_repo_p2\<lparr>minigit :=
             [(''HEAD'', ''ref: refs/heads/main'' @ [nl]),
              (''refs/heads/main'', ''11312ad5251ac23a'' @ [nl]),
              (''objects/00000000000000c0'',
                 serialize \<lparr>hash_p2 = ''00000000000000c0'', message_p2 = ''first'',
                   timestamp_p2 = ''2023-11-14 22:13:20'', parent_hashes_p2 = [],
                   tracked_files_p2 = [(''a.txt'', ''00000000000000b1'')]\<rparr>),
              (''objects/00000000000000b1'', ''hello'' @ [nl]),
              (''objects/11312ad5251ac23a'', merge_commit_text)]\<rparr>)"
proof -
  have newc: "new_CommitNode_p2 example_env m ps fs
            = \<lparr>hash_p2 = [], message_p2 = m, timestamp_p2 = ''2023-11-14 22:13:20'',
               parent_hashes_p2 = ps, tracked_files_p2 = fs\<rparr>" for m ps fs
    by (simp add: new_CommitNode_p2_def example_env_def)
  note h = hash_example_merge_commit [unfolded example_merge_commit_def, simplified]
  have ser_hash: "serialize (c\<lparr>hash_p2 := x\<rparr>) = serialize c" for c x
    by (simp add: serialize_def)
  note ser = serialize_example_merge_commit [unfolded example_merge_commit_def, simplified]
  have hm: "generate_simple_hash example_env merge_commit_text = ''11312ad5251ac23a''"
    using hash_example_merge_commit by (simp only: serialize_example_merge_commit)
  have upd: "update_head_p2 x (write_path ''objects/11312ad5251ac23a'' body example_repo_p2)
               = write_path ''refs/heads/main'' (x @ [nl])
                   (write_path ''objects/11312ad5251ac23a'' body example_repo_p2)" for x body
    by (simp add: update_head_p2_def write_path_def read_path_def
        example_repo_p2_def getline_first_def starts_with_def)
  have run: "merge_p2 example_env ''main'' example_repo_p2 =
     Some (Merge_commit_created False ''11312ad5251ac23a'',
           checkout_files [(''a.txt'', ''00000000000000b1'')]
             (write_path ''refs/heads/main'' (''11312ad5251ac23a'' @ [nl])
                (write_path ''objects/11312ad5251ac23a'' merge_commit_text example_repo_p2)))"
    by (simp add: merge_p2_def example_p2_paths example_p2_head getline_first_def
        example_p2_lca example_p2_commit example_p2_merge_maps Let_def newc hm upd
        save_commit_def ser_hash ser)
  show ?thesis
    unfolding run
    by (simp add: checkout_files_def write_path_def write_work_def read_path_def
        read_blob_p2_def example_repo_p2_def)
qed

subsection \<open>Ancestors\<close>

text \<open>
  The first loop of \<open>find_lca\<close> in part_002 collects the ancestors of \<open>hash1\<close>. It returns
  for every store: each iteration either inserts a new name among the finitely many that
  are queued or listed as parents, or leaves the set alone and takes an already visited
  name off the queue, pushing only names not visited.
\<close>

lemma finite_stored_parents_p2: "finite (stored_parents_p2 e st)"
proof -
  have "finite ((\<lambda>h. ''objects/'' @ h) -` (fst ` set (minigit st)))"
    by (rule finite_vimageI) (simp_all add: inj_on_def)
  then have "finite {h. ''objects/'' @ h \<in> fst ` set (minigit st)}"
    by (simp add: vimage_def)
  then show ?thesis by (simp add: stored_parents_p2_def)
qed

lemma parent_hashes_read_commit:
  "set (parent_hashes_p2 (read_commit e st h)) \<subseteq> stored_parents_p2 e st"
proof (cases "read_path st (''objects/'' @ h)")
  case None
  then show ?thesis by (simp add: read_commit_def default_CommitNode_p2_def)
next
  case (Some body)
  then have "(''objects/'' @ h, body) \<in> set (minigit st)"
    by (simp add: read_path_def map_of_SomeD)
  then have "''objects/'' @ h \<in> fst ` set (minigit st)" by force
  then show ?thesis unfolding stored_parents_p2_def by blast
qed

lemma lca_visit_result_pair:
  assumes step: "\<And>c p. R c \<Longrightarrow> parent_link_p2 e st c p \<Longrightarrow> R p"
  shows "(\<forall>c \<in> set (snd x). \<forall>p. parent_link_p2 e st c p \<longrightarrow> p \<in> set (snd x) \<union> set (fst x)) \<Longrightarrow>
         (\<forall>c \<in> set (snd x) \<union> set (fst x). R c) \<Longrightarrow>
         \<exists>v. lca_visit e st (fst x) (snd x) = Some v \<and> set (snd x) \<union> set (fst x) \<subseteq> set v
           \<and> (\<forall>c \<in> set v. \<forall>p. parent_link_p2 e st c p \<longrightarrow> p \<in> set v)
           \<and> (\<forall>c \<in> set v. R c)"
proof -
  have w: "wf (measures [\<lambda>(q, v). card ((set q \<union> stored_parents_p2 e st) - set v),
                 \<lambda>(q, v). length (filter (\<lambda>x. x \<in> set v) q)])"
    by simp
  assume a1: "\<forall>c \<in> set (snd x). \<forall>p. parent_link_p2 e st c p \<longrightarrow> p \<in> set (snd x) \<union> set (fst x)"
    and a2: "\<forall>c \<in> set (snd x) \<union> set (fst x). R c"
  from w a1 a2 show ?thesis
  proof (induction x rule: wf_induct_rule)
    case (less x)
    obtain q visited where x: "x = (q, visited)" by (cases x)
    have IH: "\<And>q' v'. ((q', v'), (q, visited))
                   \<in> measures [\<lambda>(q, v). card ((set q \<union> stored_parents_p2 e st) - set v),
                               \<lambda>(q, v). length (filter (\<lambda>x. x \<in> set v) q)] \<Longrightarrow>
            \<forall>c \<in> set v'. \<forall>p. parent_link_p2 e st c p \<longrightarrow> p \<in> set v' \<union> set q' \<Longrightarrow>
            \<forall>c \<in> set v' \<union> set q'. R c \<Longrightarrow>
            \<exists>v. lca_visit e st q' v' = Some v \<and> set v' \<union> set q' \<subseteq> set v
             \<and> (\<forall>c \<in> set v. \<forall>p. parent_link_p2 e st c p \<longrightarrow> p \<in> set v)
             \<and> (\<forall>c \<in> set v. R c)"
      using less.IH [of "(q', v')" for q' v'] unfolding x by simp
    have closed: "\<forall>c \<in> set visited. \<forall>p. parent_link_p2 e st c p \<longrightarrow> p \<in> set visited \<union> set q"
      and reach: "\<forall>c \<in> set visited \<union> set q. R c"
      using less.prems unfolding x by simp_all
    have goal: "\<exists>v. lca_visit e st q visited = Some v \<and> set visited \<union> set q \<subseteq> set v
             \<and> (\<forall>c \<in> set v. \<forall>p. parent_link_p2 e st c p \<longrightarrow> p \<in> set v)
             \<and> (\<forall>c \<in> set v. R c)"
    proof -
      let ?P = "stored_parents_p2 e st"
      show ?thesis
      proof (cases q)
        case Nil
        have "lca_visit e st q visited = Some visited"
          using Nil by (subst lca_visit.simps) simp
        then show ?thesis using closed reach Nil by simp
      next
        case (Cons cur q1)
        let ?ps = "parent_hashes_p2 (read_commit e st cur)"
        have ps_sub: "set ?ps \<subseteq> ?P" by (rule parent_hashes_read_commit)
        have fin: "finite (set q \<union> ?P)" by (simp add: finite_stored_parents_p2)
        have Rcur: "R cur" using reach Cons by simp
        have Rps: "\<And>p. p \<noteq> [] \<Longrightarrow> p \<in> set ?ps \<Longrightarrow> R p"
          using step [OF Rcur] by (simp add: parent_link_p2_def)
        have links_cur: "\<And>p. parent_link_p2 e st cur p \<Longrightarrow> p \<noteq> [] \<and> p \<in> set ?ps"
          by (simp add: parent_link_p2_def)
        show ?thesis
        proof (cases "cur \<in> set visited")
          case True
          let ?q' = "q1 @ filter (\<lambda>p. p \<noteq> [] \<and> p \<notin> set visited) ?ps"
          have eq: "lca_visit e st q visited = lca_visit e st ?q' visited"
            using Cons True by (subst lca_visit.simps) (simp add: Let_def)
          have qset: "set ?q' \<subseteq> set q1 \<union> ?P" using ps_sub by auto
          have "(set ?q' \<union> ?P) - set visited \<subseteq> (set q \<union> ?P) - set visited"
            using qset Cons by auto
          then have c: "card ((set ?q' \<union> ?P) - set visited) \<le> card ((set q \<union> ?P) - set visited)"
            using fin by (intro card_mono) simp_all
          have f: "filter (\<lambda>x. x \<in> set visited) ?q' = filter (\<lambda>x. x \<in> set visited) q1"
            by (simp add: filter_empty_conv)
          have l: "length (filter (\<lambda>x. x \<in> set visited) ?q') < length (filter (\<lambda>x. x \<in> set visited) q)"
            unfolding f using Cons True by simp
          have m: "((?q', visited), (q, visited))
                     \<in> measures [\<lambda>(q, v). card ((set q \<union> ?P) - set v),
                                 \<lambda>(q, v). length (filter (\<lambda>x. x \<in> set v) q)]"
            using c l by auto
          have closed': "\<forall>c \<in> set visited. \<forall>p. parent_link_p2 e st c p \<longrightarrow> p \<in> set visited \<union> set ?q'"
            using closed Cons True by auto
          have reach': "\<forall>c \<in> set visited \<union> set ?q'. R c"
            using reach Cons Rps by auto
          obtain v where v: "lca_visit e st ?q' visited = Some v" "set visited \<union> set ?q' \<subseteq> set v"
            "\<forall>c \<in> set v. \<forall>p. parent_link_p2 e st c p \<longrightarrow> p \<in> set v" "\<forall>c \<in> set v. R c"
            using IH [OF m closed' reach'] by blast
          have "set visited \<union> set q \<subseteq> set v" using v(2) Cons True by auto
          then show ?thesis using v eq by simp
        next
          case False
          let ?v1 = "visited @ [cur]"
          let ?q' = "q1 @ filter (\<lambda>p. p \<noteq> [] \<and> p \<notin> set ?v1) ?ps"
          have eq: "lca_visit e st q visited = lca_visit e st ?q' ?v1"
            using Cons False by (subst lca_visit.simps) (simp add: Let_def)
          have qset: "set ?q' \<subseteq> set q1 \<union> ?P" using ps_sub by auto
          have "(set ?q' \<union> ?P) - set ?v1 \<subset> (set q \<union> ?P) - set visited"
            using qset Cons False by auto
          then have c: "card ((set ?q' \<union> ?P) - set ?v1) < card ((set q \<union> ?P) - set visited)"
            using fin by (intro psubset_card_mono) simp_all
          have m: "((?q', ?v1), (q, visited))
                     \<in> measures [\<lambda>(q, v). card ((set q \<union> ?P) - set v),
                                 \<lambda>(q, v). length (filter (\<lambda>x. x \<in> set v) q)]"
            using c by simp
          have closed': "\<forall>c \<in> set ?v1. \<forall>p. parent_link_p2 e st c p \<longrightarrow> p \<in> set ?v1 \<union> set ?q'"
          proof (intro ballI allI impI)
            fix c p assume c: "c \<in> set ?v1" and l: "parent_link_p2 e st c p"
            show "p \<in> set ?v1 \<union> set ?q'"
            proof (cases "c = cur")
              case True
              then show ?thesis using links_cur [of p] l by auto
            next
              case False
              then have "c \<in> set visited" using c by simp
              then have "p \<in> set visited \<union> set q" using closed l by blast
              then show ?thesis using Cons by auto
            qed
          qed
          have reach': "\<forall>c \<in> set ?v1 \<union> set ?q'. R c"
            using reach Cons Rps by auto
          obtain v where v: "lca_visit e st ?q' ?v1 = Some v" "set ?v1 \<union> set ?q' \<subseteq> set v"
            "\<forall>c \<in> set v. \<forall>p. parent_link_p2 e st c p \<longrightarrow> p \<in> set v" "\<forall>c \<in> set v. R c"
            using IH [OF m closed' reach'] by blast
          have "set visited \<union> set q \<subseteq> set v" using v(2) Cons by auto
          then show ?thesis using v eq by simp
        qed
      qed
    qed
    then show ?case unfolding x by simp
  qed
qed

lemma lca_visit_result:
  assumes "\<forall>c \<in> set visited. \<forall>p. parent_link_p2 e st c p \<longrightarrow> p \<in> set visited \<union> set q"
    and "\<forall>c \<in> set visited \<union> set q. R c"
    and "\<And>c p. R c \<Longrightarrow> parent_link_p2 e st c p \<Longrightarrow> R p"
  shows "\<exists>v. lca_visit e st q visited = Some v \<and> set visited \<union> set q \<subseteq> set v
           \<and> (\<forall>c \<in> set v. \<forall>p. parent_link_p2 e st c p \<longrightarrow> p \<in> set v)
           \<and> (\<forall>c \<in> set v. R c)"
  using lca_visit_result_pair [of R e st "(q, visited)"] assms by simp

lemma lca_visit_exact:
  assumes "h \<noteq> []"
  shows "\<exists>v. lca_visit e st [h] [] = Some v \<and> h \<in> set v
              \<and> set v = {c. (parent_link_p2 e st)\<^sup>*\<^sup>* h c}"
proof -
  have step: "\<And>c p. (parent_link_p2 e st)\<^sup>*\<^sup>* h c \<Longrightarrow> parent_link_p2 e st c p
                \<Longrightarrow> (parent_link_p2 e st)\<^sup>*\<^sup>* h p"
    by (rule rtranclp.rtrancl_into_rtrancl)
  obtain v where v: "lca_visit e st [h] [] = Some v" "set [] \<union> set [h] \<subseteq> set v"
      "\<forall>c \<in> set v. \<forall>p. parent_link_p2 e st c p \<longrightarrow> p \<in> set v"
      "\<forall>c \<in> set v. (parent_link_p2 e st)\<^sup>*\<^sup>* h c"
    using lca_visit_result [of "[]" e st "[h]" "\<lambda>c. (parent_link_p2 e st)\<^sup>*\<^sup>* h c"] step
    by auto
  have hin: "h \<in> set v" using v(2) by simp
  have "\<And>c. (parent_link_p2 e st)\<^sup>*\<^sup>* h c \<Longrightarrow> c \<in> set v"
  proof -
    fix c assume "(parent_link_p2 e st)\<^sup>*\<^sup>* h c"
    then show "c \<in> set v"
    proof (induction rule: rtranclp_induct)
      case base
      then show ?case using hin by simp
    next
      case (step y z)
      then show ?case using v(3) by blast
    qed
  qed
  then have "set v = {c. (parent_link_p2 e st)\<^sup>*\<^sup>* h c}" using v(4) by blast
  then show ?thesis using v(1) hin by simp
qed

lemma read_commit_write_path:
  "read_commit e (write_path p content st) h =
     (if ''objects/'' @ h = p then deserialize e h content else read_commit e st h)"
  by (simp add: read_commit_def read_write_path)

lemma example_merge_commit_well_formed: "well_formed_commit example_merge_commit"
  by (simp add: well_formed_commit_def example_merge_commit_def is_word_def isspace_def)

lemma merged_p2_commits:
  "parent_hashes_p2 (read_commit example_env merged_repo_p2 ''11312ad5251ac23a'')
     = [''00000000000000c0'', ''00000000000000c0'']"
  "parent_hashes_p2 (read_commit example_env merged_repo_p2 ''00000000000000c0'') = []"
proof -
  have r: "read_commit example_env merged_repo_p2 ''11312ad5251ac23a''
          = deserialize example_env ''11312ad5251ac23a'' merge_commit_text"
    by (simp add: merged_repo_p2_def read_commit_write_path)
  have d: "deserialize example_env ''11312ad5251ac23a'' (serialize example_merge_commit)
          = example_merge_commit\<lparr>hash_p2 := ''11312ad5251ac23a''\<rparr>"
    using example_merge_commit_well_formed by (rule deserialize_serialize_p2)
  have "read_commit example_env merged_repo_p2 ''11312ad5251ac23a''
          = example_merge_commit\<lparr>hash_p2 := ''11312ad5251ac23a''\<rparr>"
    using r d by (simp only: serialize_example_merge_commit)
  then show "parent_hashes_p2 (read_commit example_env merged_repo_p2 ''11312ad5251ac23a'')
     = [''00000000000000c0'', ''00000000000000c0'']"
    by (simp add: example_merge_commit_def)
  have "read_commit example_env merged_repo_p2 ''00000000000000c0''
          = read_commit example_env example_repo_p2 ''00000000000000c0''"
    by (simp add: merged_repo_p2_def read_commit_write_path)
  then show "parent_hashes_p2 (read_commit example_env merged_repo_p2 ''00000000000000c0'') = []"
    by (simp add: example_p2_commit)
qed

lemma merged_p2_visit:
  "lca_visit example_env merged_repo_p2 [''11312ad5251ac23a''] []
     = Some [''11312ad5251ac23a'', ''00000000000000c0'']"
proof -
  have v1: "lca_visit example_env merged_repo_p2 [''11312ad5251ac23a''] []
              = lca_visit example_env merged_repo_p2 [''00000000000000c0'', ''00000000000000c0'']
                  [''11312ad5251ac23a'']"
    by (subst lca_visit.simps) (simp add: merged_p2_commits Let_def)
  have v2: "lca_visit example_env merged_repo_p2 [''00000000000000c0'', ''00000000000000c0'']
                  [''11312ad5251ac23a'']
              = lca_visit example_env merged_repo_p2 [''00000000000000c0'']
                  [''11312ad5251ac23a'', ''00000000000000c0'']"
    by (subst lca_visit.simps) (simp add: merged_p2_commits Let_def)
  have v3: "lca_visit example_env merged_repo_p2 [''00000000000000c0'']
                  [''11312ad5251ac23a'', ''00000000000000c0'']
              = lca_visit example_env merged_repo_p2 []
                  [''11312ad5251ac23a'', ''00000000000000c0'']"
    by (subst lca_visit.simps) (simp add: merged_p2_commits Let_def)
  have v4: "lca_visit example_env merged_repo_p2 [] [''11312ad5251ac23a'', ''00000000000000c0'']
              = Some [''11312ad5251ac23a'', ''00000000000000c0'']"
    by (subst lca_visit.simps) simp
  show ?thesis by (simp only: v1 v2 v3 v4)
qed


text \<open>
  C9. For every non-empty commit name and every stored commit graph (merge commits and
  repeated visits included), the traversal that collects the ancestors returns, and the
  set it returns contains the name and is exactly the set of names reachable from it
  along parent links. This holds for \<open>getAncestors\<close> of MiniGit-Project.cpp (a total
  function) and for the first loop of \<open>find_lca\<close> in part_002 (it returns \<open>Some\<close> set).
\<close>

theorem getAncestors_reachable:
  "(h \<noteq> [] \<longrightarrow>
      h \<in> set (getAncestors e st h)
      \<and> set (getAncestors e st h) = {c. (parent_link e st)\<^sup>*\<^sup>* h c})
   \<and> (g \<noteq> [] \<longrightarrow>
      (\<exists>v. lca_visit e st' [g] [] = Some v \<and> g \<in> set v
           \<and> set v = {c. (parent_link_p2 e st')\<^sup>*\<^sup>* g c}))"
  using getAncestors_exact [of h e st] lca_visit_exact [of g e st'] by blast

theorem getAncestors_reachable_witness:
  "commit_B \<noteq> []
   \<and> commit_B \<in> set (getAncestors example_env example_repo commit_B)
   \<and> set (getAncestors example_env example_repo commit_B)
       = {c. (parent_link example_env example_repo)\<^sup>*\<^sup>* commit_B c}
   \<and> getAncestors example_env example_repo commit_B = [commit_B, commit_A]
   \<and> (\<exists>v. lca_visit example_env merged_repo_p2 [''11312ad5251ac23a''] [] = Some v
           \<and> ''11312ad5251ac23a'' \<in> set v
           \<and> set v = {c. (parent_link_p2 example_env merged_repo_p2)\<^sup>*\<^sup>* ''11312ad5251ac23a'' c})
   \<and> lca_visit example_env merged_repo_p2 [''11312ad5251ac23a''] []
       = Some [''11312ad5251ac23a'', ''00000000000000c0'']"
proof -
  have b: "commit_B \<noteq> []" by (simp add: commit_B_def)
  have m: "''11312ad5251ac23a'' \<noteq> []" by simp
  show ?thesis
    using getAncestors_reachable [of commit_B example_env example_repo
        "''11312ad5251ac23a''" merged_repo_p2] b m example_ancestors_B merged_p2_visit
    by blast
qed


end
